theory Spec2Isabelle
  imports Main
begin

section \<open>Values, errors and syntax trees\<close>

text \<open>
  The generator of \<^verbatim>\<open>scripts/generate_overload/generate_overloads.py\<close> builds Python
  syntax trees and prints them. Strings are lists of characters; exceptions are values of
  \<open>error\<close>, returned on the left of a sum.
\<close>

datatype error = IndexError | SyntaxError

text \<open>
  The keys and values of \<open>mapping\<close> are arbitrary Python objects. The code only asks
  whether a value is a class or a string, reads \<open>__name__\<close> of a class and takes
  \<open>str\<close> of an object, so a class carries its name and its \<open>str\<close> rendering, and any
  other object its \<open>str\<close> rendering.
\<close>

datatype pyval =
    PyClass string string
  | PyStr string
  | PyInt int
  | PyObject string

definition digit_char :: "nat \<Rightarrow> char" where
  "digit_char d = char_of (48 + d)"

function str_nat :: "nat \<Rightarrow> string" where
  "str_nat n = (if n < 10 then [digit_char n] else str_nat (n div 10) @ [digit_char (n mod 10)])"
  by pat_completeness auto
termination str_nat
  by (relation "measure id") auto

declare str_nat.simps [simp del]

definition py_str :: "pyval \<Rightarrow> string" where
  "py_str v =
     (case v of
        PyClass nm rendering \<Rightarrow> rendering
      | PyStr s \<Rightarrow> s
      | PyInt i \<Rightarrow> (if i < 0 then CHR ''-'' # str_nat (nat (- i)) else str_nat (nat i))
      | PyObject rendering \<Rightarrow> rendering)"

datatype const = ConstStr string | ConstInt int | ConstEllipsis

datatype expr =
    Name string
  | Constant const
  | Subscript expr expr
  | Tuple "expr list"

record ast_arg =
  arg :: string
  annotation :: "expr option"

record arguments =
  posonlyargs :: "ast_arg list"
  args :: "ast_arg list"
  kwonlyargs :: "ast_arg list"
  kw_defaults :: "expr list"
  defaults :: "expr list"

text \<open>
  Statements. \<open>Foreign\<close> is a statement of a caller-supplied implementation body, as
  \<open>ast.parse\<close> returns it; the generator never looks inside one.
\<close>

datatype 's stmt =
    Expr expr
  | FunctionDef (name: string) (fargs: arguments) (body: "'s stmt list")
      (decorator_list: "expr list") (returns: expr)
  | AsyncFunctionDef (name: string) (fargs: arguments) (body: "'s stmt list")
      (decorator_list: "expr list") (returns: expr)
  | ClassDef (name: string) (bases: "expr list") (class_keywords: "expr list")
      (body: "'s stmt list") (decorator_list: "expr list")
  | Foreign 's

datatype 's module = Module (mbody: "'s stmt list") (type_ignores: "string list")

section \<open>String operations of the Python library\<close>

text \<open>
  \<open>str.strip()\<close> removes white space at both ends; below code point 256 the white space
  characters of Python are the ones listed. \<open>rstrip c\<close> is \<open>str.rstrip\<close> with the
  one-character argument \<open>c\<close>, \<open>split1 c\<close> is \<open>str.split(c, 1)\<close> on a string that
  contains \<open>c\<close>, and \<open>join\<close> is \<open>sep.join\<close>.
\<close>

definition is_space :: "char \<Rightarrow> bool" where
  "is_space c = (of_char c \<in> {9, 10, 11, 12, 13, 28, 29, 30, 31, 32, 133, 160 :: nat})"

definition strip :: "string \<Rightarrow> string" where
  "strip s = rev (dropWhile is_space (rev (dropWhile is_space s)))"

definition rstrip :: "char \<Rightarrow> string \<Rightarrow> string" where
  "rstrip c s = rev (dropWhile (\<lambda>x. x = c) (rev s))"

definition split1 :: "char \<Rightarrow> string \<Rightarrow> string \<times> string" where
  "split1 c s = (takeWhile (\<lambda>x. x \<noteq> c) s, tl (dropWhile (\<lambda>x. x \<noteq> c) s))"

fun join :: "string \<Rightarrow> string list \<Rightarrow> string" where
  "join sep [] = []"
| "join sep [x] = x"
| "join sep (x # y # ys) = x @ sep @ join sep (y # ys)"

section \<open>The type-expression parser\<close>

text \<open>
  The loop of \<open>_create_type_annotation\<close> over the characters of \<open>args\<close>, with its three
  variables \<open>arg_list\<close>, \<open>depth\<close> and \<open>current\<close>; the first equation is the code after
  the loop.
\<close>

fun scan_args :: "string \<Rightarrow> string list \<Rightarrow> int \<Rightarrow> string \<Rightarrow> string list" where
  "scan_args [] arg_list depth current =
     (if current \<noteq> [] then arg_list @ [strip current] else arg_list)"
| "scan_args (char # rest) arg_list depth current =
     (if char = CHR ''['' then scan_args rest arg_list (depth + 1) (current @ [char])
      else if char = CHR '']'' then scan_args rest arg_list (depth - 1) (current @ [char])
      else if char = CHR '','' \<and> depth = 0 then scan_args rest (arg_list @ [strip current]) depth []
      else scan_args rest arg_list depth (current @ [char]))"

text \<open>A list comprehension whose element expression may raise: the first error wins.\<close>

fun sequence_result :: "('e + 'a) list \<Rightarrow> 'e + 'a list" where
  "sequence_result [] = Inr []"
| "sequence_result (Inl e # rs) = Inl e"
| "sequence_result (Inr x # rs) =
     (case sequence_result rs of Inl e \<Rightarrow> Inl e | Inr xs \<Rightarrow> Inr (x # xs))"

lemma length_strip_le: "length (strip s) \<le> length s"
  unfolding strip_def
  by (metis length_rev length_dropWhile_le order_trans)

lemma length_rstrip_le: "length (rstrip c s) \<le> length s"
  unfolding rstrip_def
  by (metis length_rev length_dropWhile_le)

lemma split1_snd_less:
  assumes "c \<in> set s"
  shows "length (snd (split1 c s)) < length s"
proof -
  from assms have "dropWhile (\<lambda>x. x \<noteq> c) s \<noteq> []"
    by simp
  then have "length (tl (dropWhile (\<lambda>x. x \<noteq> c) s)) < length (dropWhile (\<lambda>x. x \<noteq> c) s)"
    by (cases "dropWhile (\<lambda>x. x \<noteq> c) s") auto
  also have "\<dots> \<le> length s"
    by (rule length_dropWhile_le)
  finally show ?thesis
    by (simp add: split1_def)
qed

lemma scan_args_length:
  "x \<in> set (scan_args cs al d cur) \<Longrightarrow> x \<in> set al \<or> length x \<le> length cur + length cs"
proof (induction cs arbitrary: al d cur)
  case Nil
  then show ?case
    using length_strip_le[of cur] by (auto split: if_splits)
next
  case (Cons c cs)
  then show ?case
    using length_strip_le[of cur] by (fastforce split: if_splits)
qed

lemma segment_shorter:
  assumes "CHR ''['' \<in> set s"
    and "x \<in> set (scan_args (rstrip (CHR '']'') (snd (split1 (CHR ''['') s))) [] 0 [])"
  shows "length x < length s"
proof -
  from scan_args_length[OF assms(2)]
  have "length x \<le> length (rstrip (CHR '']'') (snd (split1 (CHR ''['') s)))"
    by simp
  also have "\<dots> \<le> length (snd (split1 (CHR ''['') s))"
    by (rule length_rstrip_le)
  also have "\<dots> < length s"
    using assms(1) by (rule split1_snd_less)
  finally show ?thesis .
qed

text \<open>
  \<open>_create_type_annotation\<close>. The source takes \<open>arg_list[0]\<close> when \<open>arg_list\<close> has at
  most one element; on the empty list that raises \<open>IndexError\<close>.
\<close>

function create_type_annotation :: "string \<Rightarrow> error + expr" where
  "create_type_annotation type_str =
     (if CHR ''['' \<in> set type_str then
        (let (base, args) = split1 (CHR ''['') type_str;
             args = rstrip (CHR '']'') args;
             arg_list = scan_args args [] 0 []
         in if length arg_list > 1 then
              (case sequence_result (map create_type_annotation arg_list) of
                 Inl e \<Rightarrow> Inl e
               | Inr elts \<Rightarrow> Inr (Subscript (Name (strip base)) (Tuple elts)))
            else
              (case arg_list of
                 [] \<Rightarrow> Inl IndexError
               | a # _ \<Rightarrow>
                  (case create_type_annotation a of
                     Inl e \<Rightarrow> Inl e
                   | Inr s \<Rightarrow> Inr (Subscript (Name (strip base)) s))))
      else Inr (Name (strip type_str)))"
  by pat_completeness auto
termination create_type_annotation
proof (relation "measure length")
  show "wf (measure length)" by simp
next
  fix type_str :: string and x base args args' arg_list a
  assume "CHR ''['' \<in> set type_str" "x = split1 (CHR ''['') type_str" "(base, args) = x"
    "args' = rstrip (CHR '']'') args" "arg_list = scan_args args' [] 0 []" "a \<in> set arg_list"
  then show "(a, type_str) \<in> measure length"
    using segment_shorter[of type_str a] by (metis in_measure snd_conv)
next
  fix type_str :: string and x base args args' arg_list a rest
  assume "CHR ''['' \<in> set type_str" "x = split1 (CHR ''['') type_str" "(base, args) = x"
    "args' = rstrip (CHR '']'') args" "arg_list = scan_args args' [] 0 []" "arg_list = a # rest"
  then have "a \<in> set (scan_args (rstrip (CHR '']'') (snd (split1 (CHR ''['') type_str))) [] 0 [])"
    by (metis list.set_intros(1) snd_conv)
  then show "(a, type_str) \<in> measure length"
    using segment_shorter[of type_str a] \<open>CHR ''['' \<in> set type_str\<close> by simp
qed

declare create_type_annotation.simps [simp del]

section \<open>Printing type expressions\<close>

text \<open>
  \<open>ast.unparse\<close> on expressions, as the Python library prints the node classes above: a
  name is its identifier; a subscript is the value, then the slice in brackets, where a
  non-empty tuple slice is printed without parentheses; any other tuple is parenthesised;
  a tuple of one element ends in a comma. \<open>repr_const\<close> prints a constant.
\<close>

definition items_view :: "string list \<Rightarrow> string" where
  "items_view items = (case items of [x] \<Rightarrow> x @ '','' | _ \<Rightarrow> join '', '' items)"

fun unparse_expr :: "(const \<Rightarrow> string) \<Rightarrow> expr \<Rightarrow> string" where
  "unparse_expr repr_const (Name ident) = ident"
| "unparse_expr repr_const (Constant c) = repr_const c"
| "unparse_expr repr_const (Tuple elts) =
     ''('' @ items_view (map (unparse_expr repr_const) elts) @ '')''"
| "unparse_expr repr_const (Subscript v (Tuple elts)) =
     unparse_expr repr_const v @ ''['' @
       (if elts \<noteq> [] then items_view (map (unparse_expr repr_const) elts) else ''()'') @ '']''"
| "unparse_expr repr_const (Subscript v sl) =
     unparse_expr repr_const v @ ''['' @ unparse_expr repr_const sl @ '']''"

section \<open>The generator\<close>

record generator =
  function_name :: string
  mapping :: "(pyval \<times> pyval) list"
  key_param :: string
  additional_params :: "(string \<times> string) list"
  is_async :: bool
  has_self :: bool
  return_type_from_mapping :: bool
  return_type_fallback :: string

record class_generator = generator +
  class_name :: string

text \<open>
  \<open>OverloadGenerator.__init__\<close>; \<open>mapping\<close> is the dictionary as the list of its items,
  in iteration order.
\<close>

definition OverloadGenerator_init ::
  "string \<Rightarrow> (pyval \<times> pyval) list \<Rightarrow> string \<Rightarrow> (string \<times> string) list option \<Rightarrow>
   bool \<Rightarrow> bool \<Rightarrow> bool \<Rightarrow> string \<Rightarrow> generator" where
  "OverloadGenerator_init function_name' mapping' key_param' additional_params' is_async'
     has_self' return_type_from_mapping' return_type_fallback' =
     \<lparr> function_name = function_name',
       mapping = mapping',
       key_param = key_param',
       additional_params = (case additional_params' of None \<Rightarrow> [] | Some ps \<Rightarrow> ps),
       is_async = is_async',
       has_self = has_self',
       return_type_from_mapping = return_type_from_mapping',
       return_type_fallback = return_type_fallback' \<rparr>"

text \<open>
  \<open>ClassMethodOverloadGenerator.__init__\<close>: the constructor of the base class, then
  \<open>class_name\<close>, then \<open>has_self = True\<close>.
\<close>

definition ClassMethodOverloadGenerator_init ::
  "string \<Rightarrow> string \<Rightarrow> (pyval \<times> pyval) list \<Rightarrow> string \<Rightarrow> (string \<times> string) list option \<Rightarrow>
   bool \<Rightarrow> bool \<Rightarrow> bool \<Rightarrow> string \<Rightarrow> class_generator" where
  "ClassMethodOverloadGenerator_init class_name' function_name' mapping' key_param'
     additional_params' is_async' has_self' return_type_from_mapping' return_type_fallback' =
     (generator.extend
        (OverloadGenerator_init function_name' mapping' key_param' additional_params' is_async'
           has_self' return_type_from_mapping' return_type_fallback')
        (class_generator.fields class_name'))
       \<lparr> has_self := True \<rparr>"

definition create_literal_annotation :: "string \<Rightarrow> expr" where
  "create_literal_annotation v = Subscript (Name ''Literal'') (Constant (ConstStr v))"

text \<open>The loop of \<open>_create_arguments\<close> over \<open>additional_params\<close>.\<close>

fun additional_loop :: "(string \<times> string) list \<Rightarrow> ast_arg list \<Rightarrow> error + ast_arg list" where
  "additional_loop [] args' = Inr args'"
| "additional_loop ((param_name, param_type) # ps) args' =
     (case create_type_annotation param_type of
        Inl e \<Rightarrow> Inl e
      | Inr a \<Rightarrow> additional_loop ps (args' @ [\<lparr> arg = param_name, annotation = Some a \<rparr>]))"

definition create_arguments :: "'a generator_scheme \<Rightarrow> string option \<Rightarrow> error + arguments" where
  "create_arguments g literal_value =
     (let args0 = (if has_self g then [\<lparr> arg = ''self'', annotation = None \<rparr>] else []);
          key_annotation =
            (case literal_value of
               Some v \<Rightarrow> create_literal_annotation v
             | None \<Rightarrow> Name ''str'');
          args1 = args0 @ [\<lparr> arg = key_param g, annotation = Some key_annotation \<rparr>]
      in case additional_loop (additional_params g) args1 of
           Inl e \<Rightarrow> Inl e
         | Inr args2 \<Rightarrow>
             Inr \<lparr> posonlyargs = [], args = args2, kwonlyargs = [], kw_defaults = [],
                   defaults = [] \<rparr>)"

definition get_return_type_name :: "'a generator_scheme \<Rightarrow> pyval \<Rightarrow> string" where
  "get_return_type_name g v =
     (if \<not> return_type_from_mapping g then py_str v
      else (case v of
              PyClass nm rendering \<Rightarrow> nm
            | PyStr s \<Rightarrow> s
            | _ \<Rightarrow> return_type_fallback g))"

definition func_class ::
  "'a generator_scheme \<Rightarrow> string \<Rightarrow> arguments \<Rightarrow> 's stmt list \<Rightarrow> expr list \<Rightarrow> expr \<Rightarrow> 's stmt" where
  "func_class g = (if is_async g then AsyncFunctionDef else FunctionDef)"

definition create_overload_function ::
  "'a generator_scheme \<Rightarrow> string \<Rightarrow> string \<Rightarrow> error + 's stmt" where
  "create_overload_function g key return_type_name =
     (case create_arguments g (Some key) of
        Inl e \<Rightarrow> Inl e
      | Inr a \<Rightarrow>
          (case create_type_annotation return_type_name of
             Inl e \<Rightarrow> Inl e
           | Inr r \<Rightarrow>
               Inr (func_class g (function_name g) a [Expr (Constant ConstEllipsis)]
                      [Name ''overload''] r)))"

text \<open>
  \<open>_create_implementation_function\<close>. \<open>ast_parse\<close> is \<open>ast.parse\<close> of the Python
  library, which raises on text that is not Python; it is a parameter of the model.
\<close>

definition create_implementation_function ::
  "(string \<Rightarrow> error + 's module) \<Rightarrow> 'a generator_scheme \<Rightarrow> string option \<Rightarrow> error + 's stmt" where
  "create_implementation_function ast_parse g body_code =
     (case (case body_code of
              None \<Rightarrow> Inr [Expr (Constant ConstEllipsis)]
            | Some code \<Rightarrow>
                if code \<noteq> [] then
                  (case ast_parse code of Inl e \<Rightarrow> Inl e | Inr body_module \<Rightarrow> Inr (mbody body_module))
                else Inr [Expr (Constant ConstEllipsis)]) of
        Inl e \<Rightarrow> Inl e
      | Inr body' \<Rightarrow>
          (case create_arguments g None of
             Inl e \<Rightarrow> Inl e
           | Inr a \<Rightarrow>
               (case create_type_annotation (return_type_fallback g) of
                  Inl e \<Rightarrow> Inl e
                | Inr r \<Rightarrow> Inr (func_class g (function_name g) a body' [] r))))"

text \<open>The loop of \<open>generate\<close> (and of \<open>generate_class\<close>) over \<open>mapping.items()\<close>.\<close>

fun overload_loop ::
  "'a generator_scheme \<Rightarrow> (pyval \<times> pyval) list \<Rightarrow> 's stmt list \<Rightarrow> error + 's stmt list" where
  "overload_loop g [] functions = Inr functions"
| "overload_loop g ((key, v) # items) functions =
     (case create_overload_function g (py_str key) (get_return_type_name g v) of
        Inl e \<Rightarrow> Inl e
      | Inr func_def \<Rightarrow> overload_loop g items (functions @ [func_def]))"

text \<open>
  \<open>generate\<close> up to the module it builds, and \<open>generate\<close> itself, which prints the module
  with \<open>ast.unparse\<close> (a parameter of the model; \<open>ast.fix_missing_locations\<close> only sets
  line numbers, which the trees here do not carry).
\<close>

definition generate_module ::
  "(string \<Rightarrow> error + 's module) \<Rightarrow> 'a generator_scheme \<Rightarrow> bool \<Rightarrow> string option \<Rightarrow>
   error + 's module" where
  "generate_module ast_parse g include_implementation implementation_body =
     (case overload_loop g (mapping g) [] of
        Inl e \<Rightarrow> Inl e
      | Inr functions \<Rightarrow>
          if include_implementation then
            (case create_implementation_function ast_parse g implementation_body of
               Inl e \<Rightarrow> Inl e
             | Inr impl_func \<Rightarrow> Inr (Module (functions @ [impl_func]) []))
          else Inr (Module functions []))"



text \<open>
  \<open>generate_class\<close> up to the module it builds: the same methods, inside a class whose
  body starts with the documentation string when \<open>include_docstring\<close> holds. The string
  ends in a blank and one CJK character, here its three UTF-8 bytes.
\<close>

definition generate_class_module ::
  "(string \<Rightarrow> error + 's module) \<Rightarrow> 'a class_generator_scheme \<Rightarrow> bool \<Rightarrow> string option \<Rightarrow>
   bool \<Rightarrow> error + 's module" where
  "generate_class_module ast_parse g include_implementation implementation_body
     include_docstring =
     (case overload_loop g (mapping g) [] of
        Inl e \<Rightarrow> Inl e
      | Inr methods0 \<Rightarrow>
          (case (if include_implementation then
                   (case create_implementation_function ast_parse g implementation_body of
                      Inl e \<Rightarrow> Inl e
                    | Inr impl_func \<Rightarrow> Inr (methods0 @ [impl_func]))
                 else Inr methods0) of
             Inl e \<Rightarrow> Inl e
           | Inr methods \<Rightarrow>
               (let class_body =
                      (if include_docstring then
                         [Expr (Constant (ConstStr
                            (class_name g @ [CHR '' '', CHR 0xE7, CHR 0xB1, CHR 0xBB])))]
                       else []);
                    class_body = class_body @ methods
                in Inr (Module [ClassDef (class_name g) [] [] class_body []] []))))"

section \<open>Notions the properties are stated with\<close>

text \<open>
  A base name of a type expression: not empty, no white space at its ends, and none of the
  three characters the parser reads as syntax. Every Python identifier, dotted or not, is
  one.
\<close>

definition bare_name :: "string \<Rightarrow> bool" where
  "bare_name s =
     (s \<noteq> [] \<and> \<not> is_space (hd s) \<and> \<not> is_space (last s) \<and>
      list_all (\<lambda>c. c \<noteq> CHR ''['' \<and> c \<noteq> CHR '']'' \<and> c \<noteq> CHR '','') s)"

text \<open>
  The trees that stand for a type node (a base and an ordered list of arguments): a name
  for no argument, a subscript of a name by a type node for one argument, and a subscript
  of a name by a tuple of type nodes for two or more.
\<close>

fun type_node :: "expr \<Rightarrow> bool" where
  "type_node (Name b) = bare_name b"
| "type_node (Subscript (Name b) (Tuple elts)) =
     (bare_name b \<and> 2 \<le> length elts \<and> (\<forall>e \<in> set elts. type_node e))"
| "type_node (Subscript (Name b) a) = (bare_name b \<and> type_node a)"
| "type_node _ = False"

definition tight :: "string \<Rightarrow> bool" where
  "tight s = (s \<noteq> [] \<and> \<not> is_space (hd s) \<and> \<not> is_space (last s))"

definition sep_prefix :: "string list \<Rightarrow> string" where
  "sep_prefix xs = concat (map (\<lambda>x. x @ '', '') xs)"

definition parses :: "string \<Rightarrow> bool" where
  "parses s = (case create_type_annotation s of Inl e \<Rightarrow> False | Inr t \<Rightarrow> True)"

definition is_class :: "pyval \<Rightarrow> bool" where
  "is_class v = (case v of PyClass nm rendering \<Rightarrow> True | _ \<Rightarrow> False)"

definition is_string :: "pyval \<Rightarrow> bool" where
  "is_string v = (case v of PyStr s \<Rightarrow> True | _ \<Rightarrow> False)"

definition is_function_def :: "'s stmt \<Rightarrow> bool" where
  "is_function_def s =
     (case s of
        FunctionDef nm a b d r \<Rightarrow> True
      | AsyncFunctionDef nm a b d r \<Rightarrow> True
      | _ \<Rightarrow> False)"

text \<open>
  The discriminant parameter of a generated function: the first parameter, or the second
  when the receiver comes first.
\<close>

definition key_argument :: "'a generator_scheme \<Rightarrow> 's stmt \<Rightarrow> ast_arg" where
  "key_argument g f = args (fargs f) ! (if has_self g then 1 else 0)"

text \<open>
  What makes a call of \<open>generate\<close> return: every type text of the configuration parses,
  and so does the implementation body, if one is given and not empty.
\<close>

definition params_parse :: "'a generator_scheme \<Rightarrow> bool" where
  "params_parse g = list_all (\<lambda>(param_name, param_type). parses param_type) (additional_params g)"

definition returns_parse :: "'a generator_scheme \<Rightarrow> bool" where
  "returns_parse g = list_all (\<lambda>(key, v). parses (get_return_type_name g v)) (mapping g)"

definition body_parses :: "(string \<Rightarrow> error + 's module) \<Rightarrow> string option \<Rightarrow> bool" where
  "body_parses ast_parse body_code =
     (case body_code of
        None \<Rightarrow> True
      | Some code \<Rightarrow>
          (if code \<noteq> [] then (case ast_parse code of Inl e \<Rightarrow> False | Inr body_module \<Rightarrow> True)
           else True))"

definition self_arg :: ast_arg where
  "self_arg = \<lparr> arg = ''self'', annotation = None \<rparr>"

definition example_generator :: generator where
  "example_generator =
     OverloadGenerator_init ''parse_data''
       [(PyStr ''json'', PyStr ''dict[str, Any]''), (PyStr ''xml'', PyStr ''str'')]
       ''format'' (Some [(''data'', ''Bytes'')]) False False False ''Any''"






text \<open>
  A configuration whose mapping has a value that is neither a class nor a string, a class
  and a string; and one whose key is an integer.
\<close>

definition mixed_generator :: generator where
  "mixed_generator =
     OverloadGenerator_init ''get''
       [(PyStr ''n'', PyInt 5), (PyStr ''p'', PyClass ''Pet'' ''<class 'Pet'>''),
        (PyStr ''s'', PyStr ''list[str]'')]
       ''kind'' None False True True ''Any''"

definition status_generator :: generator where
  "status_generator =
     OverloadGenerator_init ''describe'' [(PyInt 404, PyStr ''NotFound'')] ''status'' None
       False False True ''Any''"

text \<open>
  The class generator of the example at the end of the source file, with one model, and
  with \<open>has_self\<close> given as \<open>False\<close>.
\<close>

definition seer_class_generator :: class_generator where
  "seer_class_generator =
     ClassMethodOverloadGenerator_init ''SeerAPI'' ''get_resource''
       [(PyStr ''pet'', PyClass ''Pet'' ''<class 'Pet'>'')] ''resource_name''
       (Some [(''id'', ''int'')]) True False True ''Any''"

section \<open>Lemmas on strings and on the parser\<close>

lemma type_node_cases:
  assumes "type_node e"
  obtains (name) b where "e = Name b" "bare_name b"
  | (single) b a where "e = Subscript (Name b) a" "bare_name b" "type_node a"
  | (tuple) b es where "e = Subscript (Name b) (Tuple es)" "bare_name b" "2 \<le> length es"
      "\<forall>x\<in>set es. type_node x"
proof (cases e)
  case (Name b) with assms that show ?thesis by simp
next
  case (Constant c) with assms show ?thesis by simp
next
  case (Tuple es) with assms show ?thesis by simp
next
  case (Subscript v s)
  note S = this
  show ?thesis
  proof (cases v)
    case (Name b)
    show ?thesis
    proof (cases s)
      case (Tuple es)
      with S Name assms that show ?thesis by simp
    qed (use S Name assms that in auto)
  qed (use S assms in auto)
qed

lemma type_node_induct [consumes 1, case_names name single tuple]:
  assumes "type_node e"
    and "\<And>b. bare_name b \<Longrightarrow> P (Name b)"
    and "\<And>b a. bare_name b \<Longrightarrow> type_node a \<Longrightarrow> P a \<Longrightarrow> P (Subscript (Name b) a)"
    and "\<And>b es. bare_name b \<Longrightarrow> 2 \<le> length es \<Longrightarrow> \<forall>x\<in>set es. type_node x \<and> P x \<Longrightarrow>
           P (Subscript (Name b) (Tuple es))"
  shows "P e"
  using assms(1)
proof (induction e rule: measure_induct_rule[of size])
  case (less e)
  from less.prems show ?case
  proof (cases rule: type_node_cases)
    case (name b)
    then show ?thesis using assms(2) by simp
  next
    case (single b a)
    then have "size a < size e" by simp
    with less.IH single show ?thesis using assms(3) by simp
  next
    case (tuple b es)
    have "\<forall>x\<in>set es. type_node x \<and> P x"
    proof
      fix x assume x: "x \<in> set es"
      then have "size x \<le> size_list size es" by (simp add: size_list_estimation')
      with tuple have "size x < size e" by simp
      with less.IH tuple x show "type_node x \<and> P x" by simp
    qed
    with tuple show ?thesis using assms(4) by simp
  qed
qed


lemma dropWhile_append_keep:
  "\<not> P c \<Longrightarrow> dropWhile P (xs @ c # ys) = dropWhile P xs @ c # ys"
  by (induction xs) auto

lemma rstrip_snoc_same: "rstrip c (s @ [c]) = rstrip c s"
  by (simp add: rstrip_def)

lemma rstrip_mid: "x \<noteq> c \<Longrightarrow> rstrip c (p @ x # q) = p @ x # rstrip c q"
  by (simp add: rstrip_def dropWhile_append_keep)

lemma rstrip_id:
  assumes "s \<noteq> []" "last s \<noteq> c"
  shows "rstrip c s = s"
proof -
  from assms(1) have "s = butlast s @ [last s]" by simp
  then have "rstrip c s = rstrip c (butlast s @ last s # [])" by simp
  also have "\<dots> = butlast s @ last s # rstrip c []"
    using assms(2) by (rule rstrip_mid)
  finally show ?thesis using assms(1) by (simp add: rstrip_def)
qed

lemma rstrip_idem: "rstrip c (rstrip c s) = rstrip c s"
  by (simp add: rstrip_def)

lemma rstrip_append:
  assumes "rstrip c t \<noteq> []"
  shows "rstrip c (s @ t) = s @ rstrip c t"
proof -
  from assms have "dropWhile (\<lambda>x. x = c) (rev t) \<noteq> []"
    by (simp add: rstrip_def)
  then obtain x where "x \<in> set (rev t)" "x \<noteq> c"
    by (auto simp: dropWhile_eq_Nil_conv)
  then have "dropWhile (\<lambda>x. x = c) (rev t @ rev s) = dropWhile (\<lambda>x. x = c) (rev t) @ rev s"
    by (intro dropWhile_append1) auto
  then show ?thesis
    by (simp add: rstrip_def)
qed

lemma strip_tight:
  assumes "tight s"
  shows "strip s = s"
proof -
  from assms have "dropWhile is_space s = s"
    by (simp add: tight_def dropWhile_eq_self_iff)
  moreover from assms have "dropWhile is_space (rev s) = rev s"
    by (simp add: tight_def dropWhile_eq_self_iff hd_rev)
  ultimately show ?thesis
    by (simp add: strip_def)
qed

lemma strip_spaces_prefix:
  "list_all is_space cur \<Longrightarrow> strip (cur @ s) = strip s"
  by (simp add: strip_def list_all_iff)

lemma join_Cons: "ys \<noteq> [] \<Longrightarrow> join sep (x # ys) = x @ sep @ join sep ys"
  by (cases ys) auto

lemma join_snoc: "join '', '' (xs @ [x]) = sep_prefix xs @ x"
  by (induction xs) (auto simp: sep_prefix_def join_Cons)


lemma bare_name_tight: "bare_name b \<Longrightarrow> tight b"
  by (simp add: bare_name_def tight_def)

lemma bare_name_plain:
  "bare_name b \<Longrightarrow> list_all (\<lambda>c. c \<noteq> CHR ''['' \<and> c \<noteq> CHR '']'' \<and> c \<noteq> CHR '','') b"
  by (simp add: bare_name_def)

lemma bare_name_last: "bare_name b \<Longrightarrow> last b \<noteq> CHR '']''"
  by (auto simp: bare_name_def list_all_iff dest: last_in_set)

lemma bare_name_no_bracket: "bare_name b \<Longrightarrow> CHR ''['' \<notin> set b"
  by (auto simp: bare_name_def list_all_iff)

lemma scan_plain:
  "list_all (\<lambda>c. c \<noteq> CHR ''['' \<and> c \<noteq> CHR '']'' \<and> c \<noteq> CHR '','') s \<Longrightarrow>
   scan_args (s @ rest) al d cur = scan_args rest al d (cur @ s)"
  by (induction s arbitrary: cur) auto

lemma type_node_not_Tuple: "type_node a \<Longrightarrow> a \<noteq> Tuple es"
  by auto

lemma shape_single:
  "type_node a \<Longrightarrow>
   unparse_expr rc (Subscript v a) = unparse_expr rc v @ CHR ''['' # unparse_expr rc a @ '']''"
  by (cases a) auto

lemma items_view_snoc:
  "xs \<noteq> [] \<Longrightarrow> items_view (xs @ [x]) = sep_prefix xs @ x"
  by (cases xs) (auto simp: items_view_def join_snoc[symmetric] split: list.splits)

lemma shape_tuple:
  "init \<noteq> [] \<Longrightarrow>
   unparse_expr rc (Subscript v (Tuple (init @ [l]))) =
     unparse_expr rc v @ CHR ''['' # sep_prefix (map (unparse_expr rc) init) @
       unparse_expr rc l @ '']''"
  using items_view_snoc[of "map (unparse_expr rc) init" "unparse_expr rc l"] by simp

lemma rshape_single:
  assumes "type_node a"
  shows "rstrip (CHR '']'') (unparse_expr rc (Subscript (Name b) a)) =
         b @ CHR ''['' # rstrip (CHR '']'') (unparse_expr rc a)"
proof -
  have "rstrip (CHR '']'') (b @ CHR ''['' # (unparse_expr rc a @ '']'')) =
        b @ CHR ''['' # rstrip (CHR '']'') (unparse_expr rc a @ '']'')"
    by (rule rstrip_mid) simp
  then show ?thesis
    using shape_single[OF assms, of rc "Name b"] by (simp add: rstrip_snoc_same)
qed

lemma rshape_tuple:
  assumes "init \<noteq> []" "rstrip (CHR '']'') (unparse_expr rc l) \<noteq> []"
  shows "rstrip (CHR '']'') (unparse_expr rc (Subscript (Name b) (Tuple (init @ [l])))) =
         b @ CHR ''['' # sep_prefix (map (unparse_expr rc) init) @
           rstrip (CHR '']'') (unparse_expr rc l)"
proof -
  let ?p = "sep_prefix (map (unparse_expr rc) init)"
  let ?u = "unparse_expr rc l"
  have "rstrip (CHR '']'') (b @ CHR ''['' # ((?p @ ?u) @ '']'')) =
        b @ CHR ''['' # rstrip (CHR '']'') ((?p @ ?u) @ '']'')"
    by (rule rstrip_mid) simp
  also have "rstrip (CHR '']'') ((?p @ ?u) @ '']'') = rstrip (CHR '']'') (?p @ ?u)"
    by (rule rstrip_snoc_same)
  also have "\<dots> = ?p @ rstrip (CHR '']'') ?u"
    using assms(2) by (rule rstrip_append)
  finally show ?thesis
    using shape_tuple[OF assms(1), of rc "Name b" l] by simp
qed

lemma two_snoc:
  assumes "2 \<le> length es"
  obtains init l where "es = init @ [l]" "init \<noteq> []"
proof (cases es rule: rev_cases)
  case Nil
  with assms show ?thesis by simp
next
  case (snoc ys y)
  with assms have "ys \<noteq> []" by auto
  with snoc that show ?thesis by blast
qed

lemma not_space_rbracket: "\<not> is_space (CHR '']'')"
  by (simp add: is_space_def)

lemma unparse_tight:
  assumes "type_node e"
  shows "tight (unparse_expr rc e) \<and> tight (rstrip (CHR '']'') (unparse_expr rc e))"
  using assms
proof (induction e rule: type_node_induct)
  case (name b)
  then show ?case
    using rstrip_id[of b "CHR '']''"] bare_name_last[of b] bare_name_tight[of b]
    by (simp add: tight_def)
next
  case (single b a)
  have b: "b \<noteq> []" "\<not> is_space (hd b)"
    using single(1) by (simp_all add: bare_name_def)
  have r: "rstrip (CHR '']'') (unparse_expr rc a) \<noteq> []"
    "\<not> is_space (last (rstrip (CHR '']'') (unparse_expr rc a)))"
    using single(3) by (simp_all add: tight_def)
  have u: "unparse_expr rc (Subscript (Name b) a) = b @ CHR ''['' # unparse_expr rc a @ '']''"
    using shape_single[OF single(2), of rc "Name b"] by simp
  have "tight (unparse_expr rc (Subscript (Name b) a))"
    unfolding u using b by (simp add: tight_def not_space_rbracket)
  moreover have "tight (rstrip (CHR '']'') (unparse_expr rc (Subscript (Name b) a)))"
    unfolding rshape_single[OF single(2)] using b r by (simp add: tight_def)
  ultimately show ?case ..
next
  case (tuple b es)
  have b: "b \<noteq> []" "\<not> is_space (hd b)"
    using tuple(1) by (simp_all add: bare_name_def)
  from tuple(2) obtain init l where es: "es = init @ [l]" "init \<noteq> []"
    by (rule two_snoc)
  with tuple(3) have r: "rstrip (CHR '']'') (unparse_expr rc l) \<noteq> []"
    "\<not> is_space (last (rstrip (CHR '']'') (unparse_expr rc l)))"
    by (simp_all add: tight_def)
  have u: "unparse_expr rc (Subscript (Name b) (Tuple (init @ [l]))) =
      b @ CHR ''['' # sep_prefix (map (unparse_expr rc) init) @ unparse_expr rc l @ '']''"
    using shape_tuple[OF es(2), of rc "Name b" l] by simp
  have "tight (unparse_expr rc (Subscript (Name b) (Tuple (init @ [l]))))"
    unfolding u using b by (simp add: tight_def not_space_rbracket)
  moreover have "tight (rstrip (CHR '']'') (unparse_expr rc (Subscript (Name b) (Tuple (init @ [l])))))"
    unfolding rshape_tuple[OF es(2) r(1)] using b r by (simp add: tight_def)
  ultimately show ?case
    unfolding es(1) ..
qed


lemma sep_prefix_Cons: "sep_prefix (x # xs) = x @ CHR '','' # CHR '' '' # sep_prefix xs"
  by (simp add: sep_prefix_def)

lemma scan_sep_prefix_deep:
  assumes "\<forall>x\<in>set xs. \<forall>rest al cur. scan_args (f x @ rest) al d cur = scan_args rest al d (cur @ f x)"
    and "d \<noteq> 0"
  shows "scan_args (sep_prefix (map f xs) @ rest) al d cur =
         scan_args rest al d (cur @ sep_prefix (map f xs))"
  using assms(1)
proof (induction xs arbitrary: cur)
  case Nil
  show ?case by (simp add: sep_prefix_def)
next
  case (Cons x xs)
  have "scan_args (sep_prefix (map f (x # xs)) @ rest) al d cur =
        scan_args (f x @ (CHR '','' # CHR '' '' # sep_prefix (map f xs) @ rest)) al d cur"
    by (simp add: sep_prefix_Cons)
  also have "\<dots> = scan_args (CHR '','' # CHR '' '' # sep_prefix (map f xs) @ rest) al d (cur @ f x)"
    using Cons.prems by simp
  also have "\<dots> = scan_args (sep_prefix (map f xs) @ rest) al d ((cur @ f x @ '', ''))"
    using assms(2) by simp
  also have "\<dots> = scan_args rest al d ((cur @ f x @ '', '') @ sep_prefix (map f xs))"
    using Cons.prems by (intro Cons.IH) simp
  finally show ?case
    by (simp add: sep_prefix_Cons)
qed

lemma scan_node:
  assumes "type_node e"
  shows "\<forall>d rest al cur. 0 \<le> d \<longrightarrow>
           scan_args (unparse_expr rc e @ rest) al d cur =
           scan_args rest al d (cur @ unparse_expr rc e)"
  using assms
proof (induction e rule: type_node_induct)
  case (name b)
  then show ?case
    using scan_plain[OF bare_name_plain] by simp
next
  case (single b a)
  show ?case
  proof (intro allI impI)
    fix d :: int and rest al cur
    assume d: "0 \<le> d"
    have "scan_args (unparse_expr rc (Subscript (Name b) a) @ rest) al d cur =
          scan_args (b @ (CHR ''['' # unparse_expr rc a @ CHR '']'' # rest)) al d cur"
      using shape_single[OF single(2), of rc "Name b"] by simp
    also have "\<dots> = scan_args (CHR ''['' # unparse_expr rc a @ CHR '']'' # rest) al d (cur @ b)"
      using scan_plain[OF bare_name_plain[OF single(1)]] by simp
    also have "\<dots> = scan_args (unparse_expr rc a @ (CHR '']'' # rest)) al (d + 1) (cur @ b @ ''['')"
      by simp
    also have "\<dots> = scan_args (CHR '']'' # rest) al (d + 1) ((cur @ b @ ''['') @ unparse_expr rc a)"
      using single(3) d by simp
    also have "\<dots> = scan_args rest al d (cur @ b @ ''['' @ unparse_expr rc a @ '']'')"
      by simp
    finally show "scan_args (unparse_expr rc (Subscript (Name b) a) @ rest) al d cur =
        scan_args rest al d (cur @ unparse_expr rc (Subscript (Name b) a))"
      using shape_single[OF single(2), of rc "Name b"] by simp
  qed
next
  case (tuple b es)
  from tuple(2) obtain init l where es: "es = init @ [l]" "init \<noteq> []"
    by (rule two_snoc)
  have u: "unparse_expr rc (Subscript (Name b) (Tuple es)) =
      b @ CHR ''['' # sep_prefix (map (unparse_expr rc) init) @ unparse_expr rc l @ '']''"
    unfolding es(1) using shape_tuple[OF es(2), of rc "Name b" l] by simp
  show ?case
  proof (intro allI impI)
    fix d :: int and rest al cur
    assume d: "0 \<le> d"
    then have d1: "d + 1 \<noteq> 0" "0 \<le> d + 1" by simp_all
    have deep: "\<forall>x\<in>set init. \<forall>rest al cur.
        scan_args (unparse_expr rc x @ rest) al (d + 1) cur =
        scan_args rest al (d + 1) (cur @ unparse_expr rc x)"
      using tuple(3) d1(2) by (simp add: es(1))
    have "scan_args (unparse_expr rc (Subscript (Name b) (Tuple es)) @ rest) al d cur =
          scan_args (b @ (CHR ''['' # sep_prefix (map (unparse_expr rc) init) @
             unparse_expr rc l @ CHR '']'' # rest)) al d cur"
      unfolding u by simp
    also have "\<dots> = scan_args (CHR ''['' # sep_prefix (map (unparse_expr rc) init) @
             unparse_expr rc l @ CHR '']'' # rest) al d (cur @ b)"
      using scan_plain[OF bare_name_plain[OF tuple(1)]] by simp
    also have "\<dots> = scan_args (sep_prefix (map (unparse_expr rc) init) @
             (unparse_expr rc l @ CHR '']'' # rest)) al (d + 1) (cur @ b @ ''['')"
      by simp
    also have "\<dots> = scan_args (unparse_expr rc l @ (CHR '']'' # rest)) al (d + 1)
             ((cur @ b @ ''['') @ sep_prefix (map (unparse_expr rc) init))"
      using deep d1(1) by (rule scan_sep_prefix_deep)
    also have "\<dots> = scan_args (CHR '']'' # rest) al (d + 1)
             (((cur @ b @ ''['') @ sep_prefix (map (unparse_expr rc) init)) @ unparse_expr rc l)"
      using tuple(3) d1(2) by (simp add: es(1))
    also have "\<dots> = scan_args rest al d (cur @ unparse_expr rc (Subscript (Name b) (Tuple es)))"
      unfolding u by simp
    finally show "scan_args (unparse_expr rc (Subscript (Name b) (Tuple es)) @ rest) al d cur =
        scan_args rest al d (cur @ unparse_expr rc (Subscript (Name b) (Tuple es)))" .
  qed
qed


lemma is_space_blank: "is_space (CHR '' '')"
  by (simp add: is_space_def)

lemma scan_sep_prefix_top:
  assumes "\<forall>x\<in>set es. type_node x" and "list_all is_space cur"
  shows "scan_args (sep_prefix (map (unparse_expr rc) es) @ rest) al 0 cur =
         scan_args rest (al @ map (unparse_expr rc) es) 0 (if es = [] then cur else '' '')"
  using assms
proof (induction es arbitrary: al cur)
  case Nil
  show ?case by (simp add: sep_prefix_def)
next
  case (Cons x xs)
  let ?u = "unparse_expr rc x"
  have x: "type_node x" using Cons.prems(1) by simp
  have st: "strip (cur @ ?u) = ?u"
    using strip_spaces_prefix[OF Cons.prems(2)] strip_tight unparse_tight[OF x] by simp
  have "scan_args (sep_prefix (map (unparse_expr rc) (x # xs)) @ rest) al 0 cur =
        scan_args (?u @ (CHR '','' # CHR '' '' # sep_prefix (map (unparse_expr rc) xs) @ rest)) al 0 cur"
    by (simp add: sep_prefix_Cons)
  also have "\<dots> = scan_args (CHR '','' # CHR '' '' # sep_prefix (map (unparse_expr rc) xs) @ rest)
      al 0 (cur @ ?u)"
    using scan_node[OF x, of rc] by simp
  also have "\<dots> = scan_args (sep_prefix (map (unparse_expr rc) xs) @ rest) (al @ [?u]) 0 '' ''"
    by (simp add: st)
  also have "\<dots> = scan_args rest ((al @ [?u]) @ map (unparse_expr rc) xs) 0
      (if xs = [] then '' '' else '' '')"
    using Cons.prems(1) by (intro Cons.IH) (simp_all add: is_space_blank)
  finally show ?case by simp
qed

lemma scan_rstripped:
  assumes "type_node e"
  shows "\<forall>d al cur. 0 \<le> d \<longrightarrow>
           scan_args (rstrip (CHR '']'') (unparse_expr rc e)) al d cur =
           al @ [strip (cur @ rstrip (CHR '']'') (unparse_expr rc e))]"
  using assms
proof (induction e rule: type_node_induct)
  case (name b)
  have r: "rstrip (CHR '']'') b = b"
    using name bare_name_last[of b] by (intro rstrip_id) (simp_all add: bare_name_def)
  have "b \<noteq> []" using name by (simp add: bare_name_def)
  then show ?case
    using scan_plain[OF bare_name_plain[OF name], of "[]"] by (simp add: r)
next
  case (single b a)
  show ?case
  proof (intro allI impI)
    fix d :: int and al cur
    assume d: "0 \<le> d"
    let ?r = "rstrip (CHR '']'') (unparse_expr rc a)"
    have "scan_args (b @ (CHR ''['' # ?r)) al d cur = scan_args (CHR ''['' # ?r) al d (cur @ b)"
      using scan_plain[OF bare_name_plain[OF single(1)]] by simp
    also have "\<dots> = scan_args ?r al (d + 1) (cur @ b @ ''['')"
      by simp
    also have "\<dots> = al @ [strip ((cur @ b @ ''['') @ ?r)]"
      using single(3) d by simp
    finally show "scan_args (rstrip (CHR '']'') (unparse_expr rc (Subscript (Name b) a))) al d cur =
        al @ [strip (cur @ rstrip (CHR '']'') (unparse_expr rc (Subscript (Name b) a)))]"
      unfolding rshape_single[OF single(2)] by simp
  qed
next
  case (tuple b es)
  from tuple(2) obtain init l where es: "es = init @ [l]" "init \<noteq> []"
    by (rule two_snoc)
  let ?r = "rstrip (CHR '']'') (unparse_expr rc l)"
  let ?p = "sep_prefix (map (unparse_expr rc) init)"
  have l: "type_node l" using tuple(3) es(1) by simp
  have rne: "?r \<noteq> []"
    using unparse_tight[OF l, of rc] by (simp add: tight_def)
  show ?case
  proof (intro allI impI)
    fix d :: int and al cur
    assume d: "0 \<le> d"
    then have d1: "d + 1 \<noteq> 0" "0 \<le> d + 1" by simp_all
    have deep: "\<forall>x\<in>set init. \<forall>rest al cur.
        scan_args (unparse_expr rc x @ rest) al (d + 1) cur =
        scan_args rest al (d + 1) (cur @ unparse_expr rc x)"
      using tuple(3) d1(2) scan_node[of _ rc] by (simp add: es(1))
    have "scan_args (b @ (CHR ''['' # ?p @ ?r)) al d cur =
          scan_args (CHR ''['' # ?p @ ?r) al d (cur @ b)"
      using scan_plain[OF bare_name_plain[OF tuple(1)]] by simp
    also have "\<dots> = scan_args (?p @ ?r) al (d + 1) (cur @ b @ ''['')"
      by simp
    also have "\<dots> = scan_args ?r al (d + 1) ((cur @ b @ ''['') @ ?p)"
      using deep d1(1) by (rule scan_sep_prefix_deep)
    also have "\<dots> = al @ [strip (((cur @ b @ ''['') @ ?p) @ ?r)]"
      using tuple(3) d1(2) by (simp add: es(1))
    finally show "scan_args (rstrip (CHR '']'') (unparse_expr rc (Subscript (Name b) (Tuple es)))) al d cur =
        al @ [strip (cur @ rstrip (CHR '']'') (unparse_expr rc (Subscript (Name b) (Tuple es))))]"
      unfolding es(1) rshape_tuple[OF es(2) rne] by simp
  qed
qed


lemma split1_at: "c \<notin> set p \<Longrightarrow> split1 c (p @ c # q) = (p, q)"
  by (induction p) (auto simp: split1_def)

lemma create_type_annotation_bracket:
  assumes "CHR ''['' \<notin> set p"
  shows "create_type_annotation (p @ CHR ''['' # q) =
     (let arg_list = scan_args (rstrip (CHR '']'') q) [] 0 []
      in if length arg_list > 1 then
           (case sequence_result (map create_type_annotation arg_list) of
              Inl e \<Rightarrow> Inl e
            | Inr elts \<Rightarrow> Inr (Subscript (Name (strip p)) (Tuple elts)))
         else
           (case arg_list of
              [] \<Rightarrow> Inl IndexError
            | a # _ \<Rightarrow>
               (case create_type_annotation a of
                  Inl e \<Rightarrow> Inl e
                | Inr s \<Rightarrow> Inr (Subscript (Name (strip p)) s))))"
  by (subst create_type_annotation.simps) (simp add: split1_at[OF assms])

lemma create_type_annotation_plain:
  "CHR ''['' \<notin> set s \<Longrightarrow> create_type_annotation s = Inr (Name (strip s))"
  by (subst create_type_annotation.simps) simp

lemma sequence_result_Inr: "sequence_result (map Inr ys) = Inr ys"
  by (induction ys) auto

lemma roundtrip_both:
  assumes "type_node e"
  shows "create_type_annotation (unparse_expr rc e) = Inr e \<and>
         create_type_annotation (rstrip (CHR '']'') (unparse_expr rc e)) = Inr e"
  using assms
proof (induction e rule: type_node_induct)
  case (name b)
  have r: "rstrip (CHR '']'') b = b"
    using name bare_name_last[of b] by (intro rstrip_id) (simp_all add: bare_name_def)
  show ?case
    using create_type_annotation_plain[OF bare_name_no_bracket[OF name]]
      strip_tight[OF bare_name_tight[OF name]] by (simp add: r)
next
  case (single b a)
  let ?r = "rstrip (CHR '']'') (unparse_expr rc a)"
  have nb: "CHR ''['' \<notin> set b" using single(1) by (rule bare_name_no_bracket)
  have sb: "strip b = b" using single(1) by (intro strip_tight bare_name_tight)
  have "strip ?r = ?r"
    using unparse_tight[OF single(2), of rc] by (intro strip_tight) simp
  then have al: "scan_args ?r [] 0 [] = [?r]"
    using scan_rstripped[OF single(2), of rc] by simp
  have u: "unparse_expr rc (Subscript (Name b) a) = b @ CHR ''['' # (unparse_expr rc a @ '']'')"
    using shape_single[OF single(2), of rc "Name b"] by simp
  have "create_type_annotation (b @ CHR ''['' # (unparse_expr rc a @ '']'')) =
        Inr (Subscript (Name b) a)"
    unfolding create_type_annotation_bracket[OF nb]
    using single(3) by (simp add: rstrip_snoc_same al sb)
  then have "create_type_annotation (unparse_expr rc (Subscript (Name b) a)) =
        Inr (Subscript (Name b) a)"
    unfolding u .
  moreover have "create_type_annotation (b @ CHR ''['' # ?r) = Inr (Subscript (Name b) a)"
    unfolding create_type_annotation_bracket[OF nb]
    using single(3) by (simp add: rstrip_idem al sb)
  then have "create_type_annotation (rstrip (CHR '']'') (unparse_expr rc (Subscript (Name b) a))) =
        Inr (Subscript (Name b) a)"
    unfolding rshape_single[OF single(2)] .
  ultimately show ?case ..
next
  case (tuple b es)
  from tuple(2) obtain init l where es: "es = init @ [l]" "init \<noteq> []"
    by (rule two_snoc)
  let ?r = "rstrip (CHR '']'') (unparse_expr rc l)"
  let ?p = "sep_prefix (map (unparse_expr rc) init)"
  have nb: "CHR ''['' \<notin> set b" using tuple(1) by (rule bare_name_no_bracket)
  have sb: "strip b = b" using tuple(1) by (intro strip_tight bare_name_tight)
  have l: "type_node l" using tuple(3) es(1) by simp
  have init: "\<forall>x\<in>set init. type_node x" using tuple(3) es(1) by simp
  have rt: "tight ?r" using unparse_tight[OF l, of rc] by simp
  then have rne: "?r \<noteq> []" by (simp add: tight_def)
  have "strip ('' '' @ ?r) = ?r"
    using strip_spaces_prefix[of "'' ''" ?r] strip_tight[OF rt] by (simp add: is_space_blank)
  then have last_seg: "scan_args ?r (map (unparse_expr rc) init) 0 '' '' =
      map (unparse_expr rc) init @ [?r]"
    using scan_rstripped[OF l, of rc] by simp
  have al: "scan_args (?p @ ?r) [] 0 [] = map (unparse_expr rc) init @ [?r]"
    using scan_sep_prefix_top[OF init, of "[]" rc ?r "[]"] es(2) last_seg by simp
  have len: "1 < length (map (unparse_expr rc) init @ [?r])"
    using es(2) by (cases init) simp_all
  have "map create_type_annotation (map (unparse_expr rc) init @ [?r]) = map Inr (init @ [l])"
    using tuple(3) by (simp add: es(1))
  then have sq: "sequence_result (map create_type_annotation (map (unparse_expr rc) init @ [?r])) =
      Inr (init @ [l])"
    by (simp only: sequence_result_Inr)
  have args1: "rstrip (CHR '']'') ((?p @ unparse_expr rc l) @ '']'') = ?p @ ?r"
    using rstrip_append[OF rne, of ?p] by (simp only: rstrip_snoc_same)
  have args2: "rstrip (CHR '']'') (?p @ ?r) = ?p @ ?r"
    using rstrip_append[of "CHR '']''" ?r ?p] rne by (simp add: rstrip_idem)
  have u: "unparse_expr rc (Subscript (Name b) (Tuple (init @ [l]))) =
      b @ CHR ''['' # ((?p @ unparse_expr rc l) @ '']'')"
    using shape_tuple[OF es(2), of rc "Name b" l] by simp
  have "create_type_annotation (b @ CHR ''['' # ((?p @ unparse_expr rc l) @ '']'')) =
        Inr (Subscript (Name b) (Tuple (init @ [l])))"
    unfolding create_type_annotation_bracket[OF nb] args1 al Let_def
    using len sq by (simp add: sb)
  then have "create_type_annotation (unparse_expr rc (Subscript (Name b) (Tuple (init @ [l])))) =
        Inr (Subscript (Name b) (Tuple (init @ [l])))"
    unfolding u .
  moreover have "create_type_annotation (b @ CHR ''['' # (?p @ ?r)) =
        Inr (Subscript (Name b) (Tuple (init @ [l])))"
    unfolding create_type_annotation_bracket[OF nb] args2 al Let_def
    using len sq by (simp add: sb)
  then have "create_type_annotation
        (rstrip (CHR '']'') (unparse_expr rc (Subscript (Name b) (Tuple (init @ [l]))))) =
        Inr (Subscript (Name b) (Tuple (init @ [l])))"
    unfolding rshape_tuple[OF es(2) rne] by simp
  ultimately show ?case
    unfolding es(1) ..
qed

section \<open>The parser\<close>

text \<open>
  Claim C1 says that the parser returns a type node for every input string, also for a base
  followed at once by an empty bracket pair. The code does not: on \<open>list[]\<close> the argument
  list is empty and \<open>arg_list[0]\<close> raises \<open>IndexError\<close>.
\<close>

theorem parse_empty_brackets_raises:
  "create_type_annotation ''list[]'' = Inl IndexError"
  by code_simp

text \<open>
  Claim C2, round trip: printing any type node (any base names, any argument lists, any
  nesting depth) and parsing the text gives the node back.
\<close>

theorem parse_serialize_roundtrip:
  "type_node e \<Longrightarrow> create_type_annotation (unparse_expr repr_const e) = Inr e"
  using roundtrip_both by blast

text \<open>The round trip at \<open>Map[String, List[Int]]\<close>.\<close>

theorem parse_serialize_roundtrip_witness:
  "type_node (Subscript (Name ''Map'') (Tuple [Name ''String'', Subscript (Name ''List'') (Name ''Int'')])) \<and>
   unparse_expr (\<lambda>c. []) (Subscript (Name ''Map'') (Tuple [Name ''String'', Subscript (Name ''List'') (Name ''Int'')])) = ''Map[String, List[Int]]'' \<and>
   create_type_annotation ''Map[String, List[Int]]'' =
     Inr (Subscript (Name ''Map'') (Tuple [Name ''String'', Subscript (Name ''List'') (Name ''Int'')]))"
proof -
  let ?e = "Subscript (Name ''Map'') (Tuple [Name ''String'', Subscript (Name ''List'') (Name ''Int'')])"
  have t: "type_node ?e"
    by (simp add: bare_name_def is_space_def)
  have u: "unparse_expr (\<lambda>c. []) ?e = ''Map[String, List[Int]]''"
    by (simp add: items_view_def)
  from parse_serialize_roundtrip[OF t, of "\<lambda>c. []"] t u show ?thesis
    by simp
qed


lemma scan_joined_nodes:
  assumes "\<forall>x\<in>set es. type_node x"
  shows "scan_args (join '', '' (map (unparse_expr rc) es)) [] 0 [] = map (unparse_expr rc) es"
proof (cases es rule: rev_cases)
  case Nil
  then show ?thesis by simp
next
  case (snoc init l)
  let ?u = "unparse_expr rc l"
  let ?cur = "if init = [] then [] else '' ''"
  have l: "type_node l" and init: "\<forall>x\<in>set init. type_node x"
    using assms snoc by simp_all
  have sp: "list_all is_space ?cur"
    by (simp add: is_space_blank)
  have st: "strip (?cur @ ?u) = ?u"
    using strip_spaces_prefix[OF sp, of ?u] strip_tight unparse_tight[OF l, of rc] by simp
  have ne: "?cur @ ?u \<noteq> []"
    using unparse_tight[OF l, of rc] by (simp add: tight_def)
  have "scan_args (join '', '' (map (unparse_expr rc) es)) [] 0 [] =
        scan_args (sep_prefix (map (unparse_expr rc) init) @ ?u) [] 0 []"
    by (simp add: snoc join_snoc)
  also have "\<dots> = scan_args ?u ([] @ map (unparse_expr rc) init) 0 ?cur"
    using scan_sep_prefix_top[OF init, of "[]" rc ?u "[]"] by simp
  also have "\<dots> = scan_args (?u @ []) (map (unparse_expr rc) init) 0 ?cur"
    by simp
  also have "\<dots> = scan_args [] (map (unparse_expr rc) init) 0 (?cur @ ?u)"
    using scan_node[OF l, of rc] by blast
  also have "\<dots> = map (unparse_expr rc) init @ [strip (?cur @ ?u)]"
    using ne by (simp del: append_is_Nil_conv)
  finally show ?thesis
    by (simp add: st snoc)
qed

text \<open>
  Claim C3: \<open>Map[String, List[Int]]\<close> parses to the base \<open>Map\<close> with exactly two arguments,
  the second the base \<open>List\<close> with the one argument \<open>Int\<close>, which has none; and nested commas
  are never separators: the text of any number of type nodes, whatever their nesting and
  whatever commas they contain, joined by \<open>, \<close>, is split by the scan of the argument text
  into exactly the texts of these nodes, in order.
\<close>

theorem nested_arguments_not_split:
  "create_type_annotation ''Map[String, List[Int]]'' =
     Inr (Subscript (Name ''Map'')
            (Tuple [Name ''String'', Subscript (Name ''List'') (Name ''Int'')])) \<and>
   create_type_annotation ''Map[Pair[A, B], List[Pair[C, D]]]'' =
     Inr (Subscript (Name ''Map'')
            (Tuple [Subscript (Name ''Pair'') (Tuple [Name ''A'', Name ''B'']),
                    Subscript (Name ''List'')
                      (Subscript (Name ''Pair'') (Tuple [Name ''C'', Name ''D'']))])) \<and>
   (\<forall>es repr_const. (\<forall>e\<in>set es. type_node e) \<longrightarrow>
      scan_args (join '', '' (map (unparse_expr repr_const) es)) [] 0 [] =
      map (unparse_expr repr_const) es)"
proof (intro conjI allI impI)
  show "create_type_annotation ''Map[String, List[Int]]'' =
     Inr (Subscript (Name ''Map'')
            (Tuple [Name ''String'', Subscript (Name ''List'') (Name ''Int'')]))"
    by code_simp
  show "create_type_annotation ''Map[Pair[A, B], List[Pair[C, D]]]'' =
     Inr (Subscript (Name ''Map'')
            (Tuple [Subscript (Name ''Pair'') (Tuple [Name ''A'', Name ''B'']),
                    Subscript (Name ''List'')
                      (Subscript (Name ''Pair'') (Tuple [Name ''C'', Name ''D'']))]))"
    by code_simp
next
  fix es :: "expr list" and repr_const
  assume "\<forall>e\<in>set es. type_node e"
  then show "scan_args (join '', '' (map (unparse_expr repr_const) es)) [] 0 [] =
      map (unparse_expr repr_const) es"
    by (rule scan_joined_nodes)
qed

text \<open>
  Three arguments, the third with a nested comma, and four arguments, the first and the last
  nested twice.
\<close>

theorem nested_arguments_not_split_witness:
  "scan_args ''B, C, D[E, F]'' [] 0 [] = [''B'', ''C'', ''D[E, F]''] \<and>
   scan_args ''P[Q[A, B], C], X, Y, L[M[N, O]]'' [] 0 [] =
     [''P[Q[A, B], C]'', ''X'', ''Y'', ''L[M[N, O]]'']"
proof -
  let ?es = "[Name ''B'', Name ''C'', Subscript (Name ''D'') (Tuple [Name ''E'', Name ''F''])]"
  let ?fs = "[Subscript (Name ''P'')
                (Tuple [Subscript (Name ''Q'') (Tuple [Name ''A'', Name ''B'']), Name ''C'']),
              Name ''X'', Name ''Y'',
              Subscript (Name ''L'')
                (Subscript (Name ''M'') (Tuple [Name ''N'', Name ''O'']))]"
  have t: "\<forall>e\<in>set ?es. type_node e" "\<forall>e\<in>set ?fs. type_node e"
    by (simp_all add: bare_name_def is_space_def)
  have u: "map (unparse_expr (\<lambda>c. [])) ?es = [''B'', ''C'', ''D[E, F]'']"
    "map (unparse_expr (\<lambda>c. [])) ?fs = [''P[Q[A, B], C]'', ''X'', ''Y'', ''L[M[N, O]]'']"
    by (simp_all add: items_view_def)
  from nested_arguments_not_split have
    all: "\<And>es repr_const. \<forall>e\<in>set es. type_node e \<Longrightarrow>
      scan_args (join '', '' (map (unparse_expr repr_const) es)) [] 0 [] =
      map (unparse_expr repr_const) es"
    by blast
  from all[OF t(1), of "\<lambda>c. []"] have "scan_args ''B, C, D[E, F]'' [] 0 [] = [''B'', ''C'', ''D[E, F]'']"
    unfolding u(1) by simp
  moreover from all[OF t(2), of "\<lambda>c. []"]
  have "scan_args ''P[Q[A, B], C], X, Y, L[M[N, O]]'' [] 0 [] =
     [''P[Q[A, B], C]'', ''X'', ''Y'', ''L[M[N, O]]'']"
    unfolding u(2) by simp
  ultimately show ?thesis ..
qed

section \<open>The generator\<close>

lemma additional_loop_Inr:
  "additional_loop ps a = Inr r \<Longrightarrow> \<exists>new. r = a @ new \<and> length new = length ps"
proof (induction ps arbitrary: a)
  case Nil
  then show ?case by simp
next
  case (Cons p ps)
  obtain n t where p: "p = (n, t)" by (cases p)
  from Cons.prems p obtain x where x: "create_type_annotation t = Inr x"
    and r: "additional_loop ps (a @ [\<lparr> arg = n, annotation = Some x \<rparr>]) = Inr r"
    by (auto split: sum.splits)
  from Cons.IH[OF r] obtain new where "r = (a @ [\<lparr> arg = n, annotation = Some x \<rparr>]) @ new"
    "length new = length ps" by blast
  then show ?case
    by (intro exI[of _ "\<lparr> arg = n, annotation = Some x \<rparr> # new"]) simp
qed

lemma additional_loop_ok:
  "list_all (\<lambda>(n, t). parses t) ps \<Longrightarrow> \<exists>r. additional_loop ps a = Inr r"
proof (induction ps arbitrary: a)
  case Nil
  then show ?case by simp
next
  case (Cons p ps)
  obtain n t where p: "p = (n, t)" by (cases p)
  with Cons.prems obtain x where "create_type_annotation t = Inr x"
    by (auto simp: parses_def split: sum.splits)
  with Cons p show ?case by simp
qed

lemma create_arguments_Inr:
  assumes "create_arguments g literal_value = Inr a"
  shows "\<exists>new. args a =
      (if has_self g then [self_arg] else []) @
      [\<lparr> arg = key_param g,
         annotation = Some (case literal_value of Some v \<Rightarrow> create_literal_annotation v
                            | None \<Rightarrow> Name ''str'') \<rparr>] @ new \<and>
      length new = length (additional_params g)"
proof -
  let ?a1 = "(if has_self g then [self_arg] else []) @
      [\<lparr> arg = key_param g,
         annotation = Some (case literal_value of Some v \<Rightarrow> create_literal_annotation v
                            | None \<Rightarrow> Name ''str'') \<rparr>]"
  from assms obtain r where r: "additional_loop (additional_params g) ?a1 = Inr r" and a: "args a = r"
    unfolding create_arguments_def Let_def self_arg_def[symmetric]
    by (cases "additional_loop (additional_params g) ?a1") auto
  from additional_loop_Inr[OF r] a show ?thesis by auto
qed

lemma create_arguments_ok:
  "params_parse g \<Longrightarrow> \<exists>a. create_arguments g literal_value = Inr a"
  unfolding params_parse_def create_arguments_def Let_def
  by (metis (no_types, lifting) additional_loop_ok sum.case(2))

lemma key_argument_func_class:
  assumes "create_arguments g literal_value = Inr a"
  shows "key_argument g (func_class g nm a b d r) =
    \<lparr> arg = key_param g,
      annotation = Some (case literal_value of Some v \<Rightarrow> create_literal_annotation v
                         | None \<Rightarrow> Name ''str'') \<rparr>"
  using create_arguments_Inr[OF assms]
  by (auto simp: key_argument_def func_class_def)

lemma func_class_sel:
  "is_function_def (func_class g nm a b d r)"
  "name (func_class g nm a b d r) = nm"
  "fargs (func_class g nm a b d r) = a"
  "body (func_class g nm a b d r) = b"
  "decorator_list (func_class g nm a b d r) = d"
  "returns (func_class g nm a b d r) = r"
  by (simp_all add: func_class_def is_function_def_def)

lemma create_overload_function_Inr:
  assumes "create_overload_function g key rtn = Inr f"
  shows "is_function_def f" "name f = function_name g"
    "key_argument g f = \<lparr> arg = key_param g, annotation = Some (create_literal_annotation key) \<rparr>"
    "body f = [Expr (Constant ConstEllipsis)]"
    "decorator_list f = [Name ''overload'']"
    "create_type_annotation rtn = Inr (returns f)"
    "create_arguments g (Some key) = Inr (fargs f)"
proof -
  from assms obtain a r where a: "create_arguments g (Some key) = Inr a"
    and r: "create_type_annotation rtn = Inr r"
    and f: "f = func_class g (function_name g) a [Expr (Constant ConstEllipsis)] [Name ''overload''] r"
    by (auto simp: create_overload_function_def split: sum.splits)
  show "is_function_def f" "name f = function_name g" "body f = [Expr (Constant ConstEllipsis)]"
    "decorator_list f = [Name ''overload'']"
    by (simp_all add: f func_class_sel)
  show "create_type_annotation rtn = Inr (returns f)" by (simp add: f r func_class_sel)
  show "create_arguments g (Some key) = Inr (fargs f)" by (simp add: f a func_class_sel)
  show "key_argument g f = \<lparr> arg = key_param g, annotation = Some (create_literal_annotation key) \<rparr>"
    unfolding f using key_argument_func_class[OF a] by simp
qed

lemma create_overload_function_ok:
  assumes "params_parse g" "parses rtn"
  shows "\<exists>f. create_overload_function g key rtn = Inr f"
proof -
  from create_arguments_ok[OF assms(1)] obtain a where "create_arguments g (Some key) = Inr a"
    by blast
  moreover from assms(2) obtain r where "create_type_annotation rtn = Inr r"
    by (auto simp: parses_def split: sum.splits)
  ultimately show ?thesis
    by (simp add: create_overload_function_def)
qed

lemma create_implementation_function_Inr:
  assumes "create_implementation_function ast_parse g body_code = Inr f"
  shows "is_function_def f" "name f = function_name g"
    "key_argument g f = \<lparr> arg = key_param g, annotation = Some (Name ''str'') \<rparr>"
    "decorator_list f = []"
    "create_type_annotation (return_type_fallback g) = Inr (returns f)"
    "create_arguments g None = Inr (fargs f)"
proof -
  from assms obtain b a r where a: "create_arguments g None = Inr a"
    and r: "create_type_annotation (return_type_fallback g) = Inr r"
    and f: "f = func_class g (function_name g) a b [] r"
    by (auto simp: create_implementation_function_def split: sum.splits)
  show "is_function_def f" "name f = function_name g" "decorator_list f = []"
    by (simp_all add: f func_class_sel)
  show "create_type_annotation (return_type_fallback g) = Inr (returns f)"
    by (simp add: f r func_class_sel)
  show "create_arguments g None = Inr (fargs f)" by (simp add: f a func_class_sel)
  show "key_argument g f = \<lparr> arg = key_param g, annotation = Some (Name ''str'') \<rparr>"
    unfolding f using key_argument_func_class[OF a] by simp
qed

lemma create_implementation_function_ok:
  assumes "params_parse g" "parses (return_type_fallback g)" "body_parses ast_parse body_code"
  shows "\<exists>f. create_implementation_function ast_parse g body_code = Inr f"
proof -
  from create_arguments_ok[OF assms(1)] obtain a where "create_arguments g None = Inr a"
    by blast
  moreover from assms(2) obtain r where "create_type_annotation (return_type_fallback g) = Inr r"
    by (auto simp: parses_def split: sum.splits)
  ultimately show ?thesis
    using assms(3)
    by (auto simp: create_implementation_function_def body_parses_def
        split: option.splits sum.splits if_splits)
qed

lemma overload_loop_Inr:
  "overload_loop g items fs = Inr r \<Longrightarrow>
   \<exists>new. r = fs @ new \<and> length new = length items \<and>
     (\<forall>i<length items.
        create_overload_function g (py_str (fst (items ! i)))
          (get_return_type_name g (snd (items ! i))) = Inr (new ! i))"
proof (induction items arbitrary: fs)
  case Nil
  then show ?case by simp
next
  case (Cons p items)
  obtain k v where p: "p = (k, v)" by (cases p)
  from Cons.prems p obtain f where
    f: "create_overload_function g (py_str k) (get_return_type_name g v) = Inr f"
    and r: "overload_loop g items (fs @ [f]) = Inr r"
    by (auto split: sum.splits)
  from Cons.IH[OF r] obtain new where new: "r = (fs @ [f]) @ new" "length new = length items"
    "\<forall>i<length items.
        create_overload_function g (py_str (fst (items ! i)))
          (get_return_type_name g (snd (items ! i))) = Inr (new ! i)"
    by blast
  have "\<forall>i<length (p # items).
        create_overload_function g (py_str (fst ((p # items) ! i)))
          (get_return_type_name g (snd ((p # items) ! i))) = Inr ((f # new) ! i)"
  proof (intro allI impI)
    fix i assume "i < length (p # items)"
    then show "create_overload_function g (py_str (fst ((p # items) ! i)))
          (get_return_type_name g (snd ((p # items) ! i))) = Inr ((f # new) ! i)"
      using new(3) f p by (cases i) simp_all
  qed
  with new(1,2) show ?case
    by (intro exI[of _ "f # new"]) simp
qed

lemma overload_loop_ok:
  fixes fs :: "'s stmt list"
  assumes "params_parse g" "list_all (\<lambda>(key, v). parses (get_return_type_name g v)) items"
  shows "\<exists>r. overload_loop g items fs = Inr r"
  using assms(2)
proof (induction items arbitrary: fs)
  case Nil
  then show ?case by simp
next
  case (Cons p items)
  obtain k v where p: "p = (k, v)" by (cases p)
  with Cons.prems have "parses (get_return_type_name g v)" by simp
  from create_overload_function_ok[OF assms(1) this] obtain f :: "'s stmt" where
    f: "create_overload_function g (py_str k) (get_return_type_name g v) = Inr f" by blast
  from Cons.prems p have "list_all (\<lambda>(key, v). parses (get_return_type_name g v)) items" by simp
  from Cons.IH[OF this, of "fs @ [f]"] f p show ?case by simp
qed


lemma generate_module_Inr:
  fixes m :: "'s module"
  assumes "generate_module ast_parse g incl body_code = Inr m"
  shows "\<exists>fs. overload_loop g (mapping g) [] = Inr fs \<and> length fs = length (mapping g) \<and>
     (\<forall>i<length (mapping g).
        create_overload_function g (py_str (fst (mapping g ! i)))
          (get_return_type_name g (snd (mapping g ! i))) = Inr (fs ! i)) \<and>
     (if incl then
        \<exists>impl. create_implementation_function ast_parse g body_code = Inr impl \<and>
          m = Module (fs @ [impl]) []
      else m = Module fs [])"
proof -
  from assms obtain fs :: "'s stmt list" where fs: "overload_loop g (mapping g) [] = Inr fs"
    unfolding generate_module_def
    by (cases "overload_loop g (mapping g) [] :: error + 's stmt list") auto
  from overload_loop_Inr[OF fs] have "length fs = length (mapping g)"
    "\<forall>i<length (mapping g).
        create_overload_function g (py_str (fst (mapping g ! i)))
          (get_return_type_name g (snd (mapping g ! i))) = Inr (fs ! i)"
    by auto
  moreover from assms fs have "if incl then
        \<exists>impl. create_implementation_function ast_parse g body_code = Inr impl \<and>
          m = Module (fs @ [impl]) []
      else m = Module fs []"
    by (auto simp: generate_module_def split: sum.splits if_splits)
  ultimately show ?thesis using fs by blast
qed

lemma generate_module_ok:
  fixes ast_parse :: "string \<Rightarrow> error + 's module"
  assumes "params_parse g" "returns_parse g"
    and "incl \<Longrightarrow> parses (return_type_fallback g) \<and> body_parses ast_parse body_code"
  shows "\<exists>m. generate_module ast_parse g incl body_code = Inr m"
proof -
  from overload_loop_ok[OF assms(1), of "mapping g" "[]"] assms(2)
  obtain fs :: "'s stmt list" where fs: "overload_loop g (mapping g) [] = Inr fs"
    unfolding returns_parse_def by blast
  show ?thesis
  proof (cases incl)
    case True
    with assms(3) create_implementation_function_ok[OF assms(1), of ast_parse body_code]
    obtain impl where "create_implementation_function ast_parse g body_code = Inr impl"
      by blast
    with fs True show ?thesis by (simp add: generate_module_def)
  next
    case False
    with fs show ?thesis by (simp add: generate_module_def)
  qed
qed







section \<open>The overloads of a module\<close>

lemma generate_module_nth:
  assumes "generate_module ast_parse g incl body_code = Inr m" "i < length (mapping g)"
  shows "create_overload_function g (py_str (fst (mapping g ! i)))
           (get_return_type_name g (snd (mapping g ! i))) = Inr (mbody m ! i)"
    and "length (mapping g) \<le> length (mbody m)"
proof -
  from generate_module_Inr[OF assms(1)] obtain fs where
    len: "length fs = length (mapping g)" and
    ov: "\<forall>i<length (mapping g).
        create_overload_function g (py_str (fst (mapping g ! i)))
          (get_return_type_name g (snd (mapping g ! i))) = Inr (fs ! i)" and
    m: "if incl then
        \<exists>impl. create_implementation_function ast_parse g body_code = Inr impl \<and>
          m = Module (fs @ [impl]) []
      else m = Module fs []"
    by blast
  from m len assms(2) have "mbody m ! i = fs ! i"
    by (auto simp: nth_append split: if_splits)
  with ov assms(2) show "create_overload_function g (py_str (fst (mapping g ! i)))
           (get_return_type_name g (snd (mapping g ! i))) = Inr (mbody m ! i)"
    by simp
  from m len show "length (mapping g) \<le> length (mbody m)"
    by (auto split: if_splits)
qed

lemma overload_at_entry:
  assumes "generate_module ast_parse g incl body_code = Inr m" "i < length (mapping g)"
  shows "key_argument g (mbody m ! i) =
          \<lparr> arg = key_param g,
            annotation =
              Some (Subscript (Name ''Literal'')
                      (Constant (ConstStr (py_str (fst (mapping g ! i)))))) \<rparr>"
    and "decorator_list (mbody m ! i) = [Name ''overload'']"
    and "body (mbody m ! i) = [Expr (Constant ConstEllipsis)]"
    and "name (mbody m ! i) = function_name g"
    and "is_function_def (mbody m ! i)"
    and "create_type_annotation (get_return_type_name g (snd (mapping g ! i))) =
           Inr (returns (mbody m ! i))"
    and "create_arguments g (Some (py_str (fst (mapping g ! i)))) = Inr (fargs (mbody m ! i))"
proof -
  note c = generate_module_nth(1)[OF assms]
  show "key_argument g (mbody m ! i) =
          \<lparr> arg = key_param g,
            annotation =
              Some (Subscript (Name ''Literal'')
                      (Constant (ConstStr (py_str (fst (mapping g ! i)))))) \<rparr>"
    using create_overload_function_Inr(3)[OF c] by (simp add: create_literal_annotation_def)
  show "decorator_list (mbody m ! i) = [Name ''overload'']"
    by (rule create_overload_function_Inr(5)[OF c])
  show "body (mbody m ! i) = [Expr (Constant ConstEllipsis)]"
    by (rule create_overload_function_Inr(4)[OF c])
  show "name (mbody m ! i) = function_name g"
    by (rule create_overload_function_Inr(2)[OF c])
  show "is_function_def (mbody m ! i)"
    by (rule create_overload_function_Inr(1)[OF c])
  show "create_type_annotation (get_return_type_name g (snd (mapping g ! i))) =
           Inr (returns (mbody m ! i))"
    by (rule create_overload_function_Inr(6)[OF c])
  show "create_arguments g (Some (py_str (fst (mapping g ! i)))) = Inr (fargs (mbody m ! i))"
    by (rule create_overload_function_Inr(7)[OF c])
qed






section \<open>The scenario of the specification\<close>

lemma scenario_parses:
  "create_type_annotation ''Bytes'' = Inr (Name ''Bytes'')"
  "create_type_annotation ''str'' = Inr (Name ''str'')"
  "create_type_annotation ''dict[str, Any]'' =
     Inr (Subscript (Name ''dict'') (Tuple [Name ''str'', Name ''Any'']))"
  by code_simp+

text \<open>
  Claim C7: the mapping \<open>{'json': 'dict[str, Any]', 'xml': 'str'}\<close>, the key parameter
  \<open>format\<close>, the additional parameter \<open>data\<close> of type \<open>Bytes\<close>, not asynchronous, no
  receiver, \<open>return_type_from_mapping\<close> off, no implementation: the module holds exactly
  two plain function definitions of the configured name, with the decorator \<open>overload\<close>
  and the body \<open>...\<close>, the parameters \<open>format: Literal['json']\<close>, \<open>data: Bytes\<close> and the
  return type \<open>dict[str, Any]\<close>, then \<open>format: Literal['xml']\<close>, \<open>data: Bytes\<close> and
  \<open>str\<close>. With \<open>return_type_from_mapping\<close> off the return type name is \<open>str\<close> of the
  mapping value, whatever the value.
\<close>

theorem format_scenario:
  "generate_module ast_parse
     (OverloadGenerator_init function_name'
        [(PyStr ''json'', PyStr ''dict[str, Any]''), (PyStr ''xml'', PyStr ''str'')]
        ''format'' (Some [(''data'', ''Bytes'')]) False False False return_type_fallback')
     False implementation_body =
   Inr (Module
     [FunctionDef function_name'
        \<lparr> posonlyargs = [],
          args = [\<lparr> arg = ''format'',
                    annotation = Some (Subscript (Name ''Literal'') (Constant (ConstStr ''json''))) \<rparr>,
                  \<lparr> arg = ''data'', annotation = Some (Name ''Bytes'') \<rparr>],
          kwonlyargs = [], kw_defaults = [], defaults = [] \<rparr>
        [Expr (Constant ConstEllipsis)]
        [Name ''overload'']
        (Subscript (Name ''dict'') (Tuple [Name ''str'', Name ''Any''])),
      FunctionDef function_name'
        \<lparr> posonlyargs = [],
          args = [\<lparr> arg = ''format'',
                    annotation = Some (Subscript (Name ''Literal'') (Constant (ConstStr ''xml''))) \<rparr>,
                  \<lparr> arg = ''data'', annotation = Some (Name ''Bytes'') \<rparr>],
          kwonlyargs = [], kw_defaults = [], defaults = [] \<rparr>
        [Expr (Constant ConstEllipsis)]
        [Name ''overload'']
        (Name ''str'')]
     []) \<and>
   get_return_type_name (g \<lparr> return_type_from_mapping := False \<rparr>) v = py_str v"
  by (simp add: generate_module_def OverloadGenerator_init_def create_overload_function_def
      create_arguments_def create_literal_annotation_def get_return_type_name_def py_str_def
      func_class_def scenario_parses)

text \<open>
  The scenario with the function name \<open>parse_data\<close>; and with the resolution off a class
  gives its \<open>str\<close> rendering, not its name.
\<close>

theorem format_scenario_witness:
  "(\<exists>f1 f2. generate_module (\<lambda>code. Inl SyntaxError :: error + unit module) example_generator
       False None = Inr (Module [f1, f2] []) \<and>
     name f1 = ''parse_data'' \<and> name f2 = ''parse_data'' \<and>
     map arg (args (fargs f1)) = [''format'', ''data''] \<and>
     map arg (args (fargs f2)) = [''format'', ''data''] \<and>
     unparse_expr (\<lambda>c. []) (returns f1) = ''dict[str, Any]'' \<and>
     unparse_expr (\<lambda>c. []) (returns f2) = ''str'') \<and>
   get_return_type_name (example_generator \<lparr> return_type_from_mapping := False \<rparr>)
     (PyClass ''Pet'' ''<class 'Pet'>'') = ''<class 'Pet'>''"
  using format_scenario[of "\<lambda>code. Inl SyntaxError :: error + unit module" "''parse_data''" "''Any''"
      None example_generator "PyClass ''Pet'' ''<class 'Pet'>''"]
  by (simp add: example_generator_def py_str_def items_view_def)

section \<open>The imports\<close>





section \<open>The return types\<close>

text \<open>
  Claim C6, fallback policy, with \<open>return_type_from_mapping\<close> on. The resolution of the
  return type name has no failing case: for a value that is neither a class nor a string it
  gives the fallback name, for a class its name, for a string the string. In a module that
  \<open>generate\<close> returns, the return annotation of the overload of an item is the parse of the
  fallback name when the value is neither a class nor a string (the name itself, when it is
  a base name), the parse of the class name when it is a class, and the parse of the string
  when it is a string; and \<open>generate\<close> returns when the type texts of the configuration
  parse.
\<close>

theorem fallback_policy:
  fixes ast_parse :: "string \<Rightarrow> error + 's module"
  assumes "return_type_from_mapping g"
  shows
    "(\<not> is_class v \<and> \<not> is_string v \<longrightarrow> get_return_type_name g v = return_type_fallback g) \<and>
     get_return_type_name g (PyClass nm rendering) = nm \<and>
     get_return_type_name g (PyStr s) = s \<and>
     (\<forall>m include_implementation i.
        generate_module ast_parse g include_implementation implementation_body = Inr m \<and>
        i < length (mapping g) \<longrightarrow>
          (\<not> is_class (snd (mapping g ! i)) \<and> \<not> is_string (snd (mapping g ! i)) \<longrightarrow>
             create_type_annotation (return_type_fallback g) = Inr (returns (mbody m ! i)) \<and>
             (bare_name (return_type_fallback g) \<longrightarrow>
                returns (mbody m ! i) = Name (return_type_fallback g))) \<and>
          (\<forall>nm rendering. snd (mapping g ! i) = PyClass nm rendering \<longrightarrow>
             create_type_annotation nm = Inr (returns (mbody m ! i)) \<and>
             (bare_name nm \<longrightarrow> returns (mbody m ! i) = Name nm)) \<and>
          (\<forall>s. snd (mapping g ! i) = PyStr s \<longrightarrow>
             create_type_annotation s = Inr (returns (mbody m ! i)))) \<and>
     (params_parse g \<and> returns_parse g \<longrightarrow>
        (\<exists>m. generate_module ast_parse g False implementation_body = Inr m))"
proof -
  have fb: "get_return_type_name g v = return_type_fallback g"
    if "\<not> is_class v" "\<not> is_string v" for v
    using that assms
    by (cases v) (simp_all add: get_return_type_name_def is_class_def is_string_def)
  have cl: "get_return_type_name g (PyClass nm rendering) = nm" for nm rendering
    using assms by (simp add: get_return_type_name_def)
  have st: "get_return_type_name g (PyStr s) = s" for s
    using assms by (simp add: get_return_type_name_def)
  have bare: "create_type_annotation b = Inr (Name b)" if "bare_name b" for b
    using create_type_annotation_plain[OF bare_name_no_bracket[OF that]]
      strip_tight[OF bare_name_tight[OF that]] by simp
  have md: "(\<not> is_class (snd (mapping g ! i)) \<and> \<not> is_string (snd (mapping g ! i)) \<longrightarrow>
             create_type_annotation (return_type_fallback g) = Inr (returns (mbody m ! i)) \<and>
             (bare_name (return_type_fallback g) \<longrightarrow>
                returns (mbody m ! i) = Name (return_type_fallback g))) \<and>
          (\<forall>nm rendering. snd (mapping g ! i) = PyClass nm rendering \<longrightarrow>
             create_type_annotation nm = Inr (returns (mbody m ! i)) \<and>
             (bare_name nm \<longrightarrow> returns (mbody m ! i) = Name nm)) \<and>
          (\<forall>s. snd (mapping g ! i) = PyStr s \<longrightarrow>
             create_type_annotation s = Inr (returns (mbody m ! i)))"
    if h: "generate_module ast_parse g incl implementation_body = Inr m \<and> i < length (mapping g)"
    for m :: "'s module" and incl i
  proof -
    from h have r: "create_type_annotation (get_return_type_name g (snd (mapping g ! i))) =
           Inr (returns (mbody m ! i))"
      using overload_at_entry(6) by blast
    show ?thesis
    proof (intro conjI allI impI)
      assume n: "\<not> is_class (snd (mapping g ! i)) \<and> \<not> is_string (snd (mapping g ! i))"
      with r fb show f: "create_type_annotation (return_type_fallback g) = Inr (returns (mbody m ! i))"
        by simp
      assume "bare_name (return_type_fallback g)"
      from bare[OF this] f show "returns (mbody m ! i) = Name (return_type_fallback g)"
        by simp
    next
      fix nm rendering assume v: "snd (mapping g ! i) = PyClass nm rendering"
      with r cl show c: "create_type_annotation nm = Inr (returns (mbody m ! i))"
        by simp
      assume "bare_name nm"
      from bare[OF this] c show "returns (mbody m ! i) = Name nm"
        by simp
    next
      fix s assume "snd (mapping g ! i) = PyStr s"
      with r st show "create_type_annotation s = Inr (returns (mbody m ! i))"
        by simp
    qed
  qed
  have ok: "\<exists>m. generate_module ast_parse g False implementation_body = Inr m"
    if "params_parse g \<and> returns_parse g"
    using that generate_module_ok[of g False ast_parse implementation_body] by auto
  from fb cl st md ok show ?thesis
    by blast
qed

lemma mixed_hyps: "params_parse mixed_generator" "returns_parse mixed_generator"
  "return_type_from_mapping mixed_generator"
proof -
  have "parses ''Any''" "parses ''Pet''" "parses ''list[str]''"
    unfolding parses_def by code_simp+
  then show "params_parse mixed_generator" "returns_parse mixed_generator"
    "return_type_from_mapping mixed_generator"
    by (simp_all add: params_parse_def returns_parse_def mixed_generator_def
        OverloadGenerator_init_def get_return_type_name_def)
qed

lemma mixed_mapping:
  "mapping mixed_generator =
       [(PyStr ''n'', PyInt 5), (PyStr ''p'', PyClass ''Pet'' ''<class 'Pet'>''),
        (PyStr ''s'', PyStr ''list[str]'')]"
  "return_type_fallback mixed_generator = ''Any''"
  by (simp_all add: mixed_generator_def OverloadGenerator_init_def)

text \<open>
  The value \<open>5\<close> gives the return type \<open>Any\<close>, the class \<open>Pet\<close> gives \<open>Pet\<close> and the string
  \<open>list[str]\<close> gives \<open>list[str]\<close>.
\<close>

theorem fallback_policy_witness:
  "\<exists>m. generate_module (\<lambda>code. Inl SyntaxError :: error + unit module) mixed_generator False None
         = Inr m \<and>
       returns (mbody m ! 0) = Name ''Any'' \<and>
       returns (mbody m ! 1) = Name ''Pet'' \<and>
       returns (mbody m ! 2) = Subscript (Name ''list'') (Name ''str'')"
proof -
  let ?p = "\<lambda>code. Inl SyntaxError :: error + unit module"
  from generate_module_ok[OF mixed_hyps(1,2), of False ?p None]
  obtain m where m: "generate_module ?p mixed_generator False None = Inr m"
    by auto
  note t = fallback_policy[OF mixed_hyps(3), of "PyInt 5" "''Pet''" "''<class 'Pet'>''" "''list[str]''"
      ?p None, THEN conjunct2, THEN conjunct2, THEN conjunct2, THEN conjunct1, rule_format]
  have b: "bare_name ''Any''" "bare_name ''Pet''"
    by (simp_all add: bare_name_def is_space_def)
  have l: "create_type_annotation ''list[str]'' = Inr (Subscript (Name ''list'') (Name ''str''))"
    by code_simp
  have i: "generate_module ?p mixed_generator False None = Inr m \<and>
        (0::nat) < length (mapping mixed_generator)"
    "generate_module ?p mixed_generator False None = Inr m \<and>
        (1::nat) < length (mapping mixed_generator)"
    "generate_module ?p mixed_generator False None = Inr m \<and>
        (2::nat) < length (mapping mixed_generator)"
    using m by (simp_all add: mixed_mapping)
  from t[OF i(1)] b(1) have "returns (mbody m ! 0) = Name ''Any''"
    by (simp add: mixed_mapping is_class_def is_string_def)
  moreover from t[OF i(2)] b(2) have "returns (mbody m ! 1) = Name ''Pet''"
    by (simp add: mixed_mapping)
  moreover from t[OF i(3)] l have "returns (mbody m ! 2) = Subscript (Name ''list'') (Name ''str'')"
    by (simp add: mixed_mapping)
  ultimately show ?thesis using m by blast
qed

section \<open>The keys\<close>

lemma overload_loop_str_keys:
  "overload_loop g (map (\<lambda>(key, v). (PyStr (py_str key), v)) items) fs = overload_loop g items fs"
proof (induction items arbitrary: fs)
  case Nil
  then show ?case by simp
next
  case (Cons p items)
  obtain k v where p: "p = (k, v)" by (cases p)
  have "py_str (PyStr (py_str k)) = py_str k"
    by (simp add: py_str_def)
  with Cons.IH p show ?case
    by (simp split: sum.splits)
qed

lemma mapping_update_irrelevant:
  "create_arguments (g \<lparr> mapping := mp \<rparr>) literal_value = create_arguments g literal_value"
  "get_return_type_name (g \<lparr> mapping := mp \<rparr>) v = get_return_type_name g v"
  "func_class (g \<lparr> mapping := mp \<rparr>) = func_class g"
  by (simp_all add: create_arguments_def get_return_type_name_def func_class_def fun_eq_iff
      split: pyval.splits)

lemma create_function_mapping_update:
  "create_overload_function (g \<lparr> mapping := mp \<rparr>) key rtn = create_overload_function g key rtn"
  "create_implementation_function ast_parse (g \<lparr> mapping := mp \<rparr>) body_code =
     create_implementation_function ast_parse g body_code"
  by (simp_all add: create_overload_function_def create_implementation_function_def
      mapping_update_irrelevant split: sum.splits option.splits)

lemma overload_loop_mapping_update:
  "overload_loop (g \<lparr> mapping := mp \<rparr>) items fs = overload_loop g items fs"
proof (induction items arbitrary: fs)
  case Nil
  then show ?case by simp
next
  case (Cons p items)
  obtain k v where p: "p = (k, v)" by (cases p)
  with Cons.IH show ?case
    by (simp add: create_function_mapping_update mapping_update_irrelevant split: sum.splits)
qed

text \<open>
  Claim C9: the annotation of the discriminant parameter is built from \<open>str(key)\<close>. In a
  module that \<open>generate\<close> returns, the overload of an item is built from \<open>str(key)\<close> and
  its discriminant parameter is annotated with \<open>Literal\<close> over the string constant
  \<open>str(key)\<close>, whatever kind of object the key is; \<open>generate\<close> reads a key only through
  \<open>str\<close>: replacing every key by its string gives the same result, also when it raises;
  and \<open>generate\<close> returns when the type texts of the configuration parse.
\<close>

theorem keys_coerced_to_str:
  fixes ast_parse :: "string \<Rightarrow> error + 's module"
  shows
  "(\<forall>m include_implementation i.
      generate_module ast_parse g include_implementation implementation_body = Inr m \<and>
      i < length (mapping g) \<longrightarrow>
        create_overload_function g (py_str (fst (mapping g ! i)))
          (get_return_type_name g (snd (mapping g ! i))) = Inr (mbody m ! i) \<and>
        key_argument g (mbody m ! i) =
          \<lparr> arg = key_param g,
            annotation =
              Some (Subscript (Name ''Literal'')
                      (Constant (ConstStr (py_str (fst (mapping g ! i)))))) \<rparr>) \<and>
   (\<forall>include_implementation.
      generate_module ast_parse
        (g \<lparr> mapping := map (\<lambda>(key, v). (PyStr (py_str key), v)) (mapping g) \<rparr>)
        include_implementation implementation_body =
      generate_module ast_parse g include_implementation implementation_body) \<and>
   (params_parse g \<and> returns_parse g \<longrightarrow>
      (\<exists>m. generate_module ast_parse g False implementation_body = Inr m))"
proof (intro conjI allI impI)
  fix m :: "'s module" and incl i
  assume h: "generate_module ast_parse g incl implementation_body = Inr m \<and>
      i < length (mapping g)"
  then show "key_argument g (mbody m ! i) =
          \<lparr> arg = key_param g,
            annotation =
              Some (Subscript (Name ''Literal'')
                      (Constant (ConstStr (py_str (fst (mapping g ! i)))))) \<rparr>"
    using overload_at_entry(1)[of ast_parse g incl implementation_body m i]
    by simp
  from h show "create_overload_function g (py_str (fst (mapping g ! i)))
          (get_return_type_name g (snd (mapping g ! i))) = Inr (mbody m ! i)"
    using generate_module_nth(1)[of ast_parse g incl implementation_body m i]
    by simp
next
  assume "params_parse g \<and> returns_parse g"
  then show "\<exists>m. generate_module ast_parse g False implementation_body = Inr m"
    using generate_module_ok[of g False ast_parse implementation_body] by auto
next
  fix incl
  show "generate_module ast_parse
        (g \<lparr> mapping := map (\<lambda>(key, v). (PyStr (py_str key), v)) (mapping g) \<rparr>)
        incl implementation_body =
      generate_module ast_parse g incl implementation_body"
    by (simp add: generate_module_def overload_loop_mapping_update overload_loop_str_keys
        create_function_mapping_update split: sum.splits)
qed

lemma status_hyps: "params_parse status_generator" "returns_parse status_generator"
proof -
  have "parses ''NotFound''"
    unfolding parses_def by code_simp
  then show "params_parse status_generator" "returns_parse status_generator"
    by (simp_all add: params_parse_def returns_parse_def status_generator_def
        OverloadGenerator_init_def get_return_type_name_def)
qed

lemma str_404: "py_str (PyInt 404) = ''404''"
  by code_simp

text \<open>The integer key \<open>404\<close> gives \<open>Literal['404']\<close>, a literal over a string.\<close>

theorem keys_coerced_to_str_witness:
  "\<exists>m. generate_module (\<lambda>code. Inl SyntaxError :: error + unit module) status_generator False None
         = Inr m \<and>
       fst (mapping status_generator ! 0) = PyInt 404 \<and>
       key_argument status_generator (mbody m ! 0) =
         \<lparr> arg = ''status'',
           annotation = Some (Subscript (Name ''Literal'') (Constant (ConstStr ''404''))) \<rparr>"
proof -
  let ?p = "\<lambda>code. Inl SyntaxError :: error + unit module"
  from generate_module_ok[OF status_hyps, of False ?p None]
  obtain m where m: "generate_module ?p status_generator False None = Inr m"
    by auto
  have mp: "mapping status_generator = [(PyInt 404, PyStr ''NotFound'')]"
    "key_param status_generator = ''status''"
    by (simp_all add: status_generator_def OverloadGenerator_init_def)
  have i: "generate_module ?p status_generator False None = Inr m \<and>
        (0::nat) < length (mapping status_generator)"
    using m by (simp add: mp)
  note t = keys_coerced_to_str[of ?p status_generator None, THEN conjunct1, rule_format, OF i]
  from t have "key_argument status_generator (mbody m ! 0) =
         \<lparr> arg = ''status'',
           annotation = Some (Subscript (Name ''Literal'') (Constant (ConstStr ''404''))) \<rparr>"
    by (simp add: mp str_404)
  with m mp show ?thesis by simp
qed

section \<open>The class generator\<close>

lemma leading_self:
  assumes "has_self g" "create_arguments g literal_value = Inr a"
  shows "\<exists>rest. args a = \<lparr> arg = ''self'', annotation = None \<rparr> # rest"
  using create_arguments_Inr[OF assms(2)] assms(1) by (auto simp: self_arg_def)

lemma overload_loop_all:
  assumes "overload_loop g items fs = Inr r" "list_all P fs"
    and "\<And>key rtn f. create_overload_function g key rtn = Inr f \<Longrightarrow> P f"
  shows "list_all P r"
  using assms(1,2)
proof (induction items arbitrary: fs)
  case Nil
  then show ?case by simp
next
  case (Cons p items)
  obtain k v where p: "p = (k, v)" by (cases p)
  from Cons.prems(1) p obtain f where
    f: "create_overload_function g (py_str k) (get_return_type_name g v) = Inr f"
    and r: "overload_loop g items (fs @ [f]) = Inr r"
    by (auto split: sum.splits)
  from assms(3)[OF f] Cons.prems(2) have "list_all P (fs @ [f])" by simp
  from Cons.IH[OF r this] show ?case .
qed

lemma generate_class_module_Inr:
  fixes m :: "'s module"
  assumes "generate_class_module ast_parse g incl body_code doc = Inr m"
  shows "\<exists>fs. overload_loop g (mapping g) [] = Inr fs \<and> length fs = length (mapping g) \<and>
     (\<exists>methods.
        (if incl then
           \<exists>impl. create_implementation_function ast_parse g body_code = Inr impl \<and>
             methods = fs @ [impl]
         else methods = fs) \<and>
        m = Module [ClassDef (class_name g) [] []
              ((if doc then
                  [Expr (Constant (ConstStr
                     (class_name g @ [CHR '' '', CHR 0xE7, CHR 0xB1, CHR 0xBB])))]
                else []) @ methods) []] [])"
proof -
  from assms obtain fs :: "'s stmt list" where fs: "overload_loop g (mapping g) [] = Inr fs"
    unfolding generate_class_module_def
    by (cases "overload_loop g (mapping g) [] :: error + 's stmt list") auto
  from overload_loop_Inr[OF fs] have len: "length fs = length (mapping g)"
    by auto
  from assms fs have "\<exists>methods.
        (if incl then
           \<exists>impl. create_implementation_function ast_parse g body_code = Inr impl \<and>
             methods = fs @ [impl]
         else methods = fs) \<and>
        m = Module [ClassDef (class_name g) [] []
              ((if doc then
                  [Expr (Constant (ConstStr
                     (class_name g @ [CHR '' '', CHR 0xE7, CHR 0xB1, CHR 0xBB])))]
                else []) @ methods) []] []"
    by (auto simp: generate_class_module_def Let_def split: sum.splits if_splits)
  with fs len show ?thesis by blast
qed

lemma generate_class_module_ok:
  fixes ast_parse :: "string \<Rightarrow> error + 's module"
  assumes "params_parse g" "returns_parse g"
    and "incl \<Longrightarrow> parses (return_type_fallback g) \<and> body_parses ast_parse body_code"
  shows "\<exists>m. generate_class_module ast_parse g incl body_code doc = Inr m"
proof -
  from overload_loop_ok[OF assms(1), of "mapping g" "[]"] assms(2)
  obtain fs :: "'s stmt list" where fs: "overload_loop g (mapping g) [] = Inr fs"
    unfolding returns_parse_def by blast
  show ?thesis
  proof (cases incl)
    case True
    with assms(3) create_implementation_function_ok[OF assms(1), of ast_parse body_code]
    obtain impl where "create_implementation_function ast_parse g body_code = Inr impl"
      by blast
    with fs True show ?thesis by (simp add: generate_class_module_def Let_def)
  next
    case False
    with fs show ?thesis by (simp add: generate_class_module_def Let_def)
  qed
qed

lemma class_generator_fields:
  "has_self (ClassMethodOverloadGenerator_init cn fn mp kp ap ia hs rt fb)"
  "mapping (ClassMethodOverloadGenerator_init cn fn mp kp ap ia hs rt fb) = mp"
  "class_name (ClassMethodOverloadGenerator_init cn fn mp kp ap ia hs rt fb) = cn"
  "additional_params (ClassMethodOverloadGenerator_init cn fn mp kp ap ia hs rt fb) =
     (case ap of None \<Rightarrow> [] | Some ps \<Rightarrow> ps)"
  "return_type_from_mapping (ClassMethodOverloadGenerator_init cn fn mp kp ap ia hs rt fb) = rt"
  "return_type_fallback (ClassMethodOverloadGenerator_init cn fn mp kp ap ia hs rt fb) = fb"
  by (simp_all add: ClassMethodOverloadGenerator_init_def OverloadGenerator_init_def
      generator.defs class_generator.defs)

text \<open>
  Claim C10: whatever is passed to the constructor of the class generator, also
  \<open>has_self = False\<close>, the generator has \<open>has_self = True\<close>; so every overload and every
  implementation it builds, every method of a class that \<open>generate_class\<close> returns and every
  function of a module that \<open>generate\<close> returns starts its parameters with \<open>self\<close>, which
  has no annotation; and \<open>generate_class\<close> returns when the type texts of the configuration
  parse.
\<close>

theorem class_generator_forces_self:
  fixes ast_parse :: "string \<Rightarrow> error + 's module"
  assumes "g = ClassMethodOverloadGenerator_init class_name' function_name' mapping' key_param'
                 additional_params' is_async' has_self' return_type_from_mapping'
                 return_type_fallback'"
  shows
    "has_self g \<and>
     (\<forall>key return_type_name (f :: 's stmt).
        create_overload_function g key return_type_name = Inr f \<longrightarrow>
          (\<exists>rest. args (fargs f) = \<lparr> arg = ''self'', annotation = None \<rparr> # rest)) \<and>
     (\<forall>body_code f.
        create_implementation_function ast_parse g body_code = Inr f \<longrightarrow>
          (\<exists>rest. args (fargs f) = \<lparr> arg = ''self'', annotation = None \<rparr> # rest)) \<and>
     (\<forall>include_implementation implementation_body include_docstring m.
        generate_class_module ast_parse g include_implementation implementation_body
          include_docstring = Inr m \<longrightarrow>
          (\<exists>methods.
             m = Module [ClassDef class_name' [] []
                   ((if include_docstring then
                       [Expr (Constant (ConstStr
                          (class_name' @ [CHR '' '', CHR 0xE7, CHR 0xB1, CHR 0xBB])))]
                     else []) @ methods) []] [] \<and>
             length methods = length mapping' + (if include_implementation then 1 else 0) \<and>
             list_all (\<lambda>f. is_function_def f \<and>
                 (\<exists>rest. args (fargs f) = \<lparr> arg = ''self'', annotation = None \<rparr> # rest))
               methods)) \<and>
     (\<forall>include_implementation implementation_body m.
        generate_module ast_parse g include_implementation implementation_body = Inr m \<longrightarrow>
          list_all (\<lambda>f. is_function_def f \<and>
              (\<exists>rest. args (fargs f) = \<lparr> arg = ''self'', annotation = None \<rparr> # rest))
            (mbody m)) \<and>
     (params_parse g \<and> returns_parse g \<longrightarrow>
        (\<exists>m. generate_class_module ast_parse g False None True = Inr m))"
proof -
  let ?P = "\<lambda>f :: 's stmt. is_function_def f \<and>
      (\<exists>rest. args (fargs f) = \<lparr> arg = ''self'', annotation = None \<rparr> # rest)"
  have hs: "has_self g" and mp: "mapping g = mapping'" and cn: "class_name g = class_name'"
    unfolding assms by (rule class_generator_fields)+
  have ov: "?P f" if "create_overload_function g key rtn = Inr f" for key rtn and f :: "'s stmt"
    using create_overload_function_Inr(1)[OF that]
      leading_self[OF hs create_overload_function_Inr(7)[OF that]] by simp
  have im: "?P f" if "create_implementation_function ast_parse g body_code = Inr f"
    for body_code and f :: "'s stmt"
    using create_implementation_function_Inr(1)[OF that]
      leading_self[OF hs create_implementation_function_Inr(6)[OF that]] by simp
  have cl: "\<exists>methods.
             m = Module [ClassDef class_name' [] []
                   ((if doc then
                       [Expr (Constant (ConstStr
                          (class_name' @ [CHR '' '', CHR 0xE7, CHR 0xB1, CHR 0xBB])))]
                     else []) @ methods) []] [] \<and>
             length methods = length mapping' + (if incl then 1 else 0) \<and>
             list_all ?P methods"
    if h: "generate_class_module ast_parse g incl body_code doc = Inr m"
    for incl body_code doc and m :: "'s module"
  proof -
    from generate_class_module_Inr[OF h] obtain fs methods where
      fs: "overload_loop g (mapping g) [] = Inr fs" and len: "length fs = length (mapping g)"
      and me: "if incl then
           \<exists>impl. create_implementation_function ast_parse g body_code = Inr impl \<and>
             methods = fs @ [impl]
         else methods = fs"
      and m: "m = Module [ClassDef (class_name g) [] []
              ((if doc then
                  [Expr (Constant (ConstStr
                     (class_name g @ [CHR '' '', CHR 0xE7, CHR 0xB1, CHR 0xBB])))]
                else []) @ methods) []] []"
      by blast
    have "list_all ?P fs"
      by (rule overload_loop_all[OF fs]) (simp, rule ov)
    with me im have "list_all ?P methods"
      by (auto split: if_splits)
    moreover from me len mp have "length methods = length mapping' + (if incl then 1 else 0)"
      by (auto split: if_splits)
    ultimately show ?thesis
      using m cn by blast
  qed
  have gm: "list_all ?P (mbody m)"
    if h: "generate_module ast_parse g incl body_code = Inr m"
    for incl body_code and m :: "'s module"
  proof -
    from generate_module_Inr[OF h] obtain fs where
      fs: "overload_loop g (mapping g) [] = Inr fs"
      and me: "if incl then
        \<exists>impl. create_implementation_function ast_parse g body_code = Inr impl \<and>
          m = Module (fs @ [impl]) []
      else m = Module fs []"
      by blast
    have "list_all ?P fs"
      by (rule overload_loop_all[OF fs]) (simp, rule ov)
    with me im show ?thesis
      by (auto split: if_splits)
  qed
  have ok: "\<exists>m. generate_class_module ast_parse g False None True = Inr m"
    if "params_parse g \<and> returns_parse g"
    using that generate_class_module_ok[of g False ast_parse None True] by auto
  from hs ov im cl gm ok show ?thesis
    by (intro conjI allI impI) blast+
qed

lemma seer_hyps:
  "params_parse seer_class_generator" "returns_parse seer_class_generator"
  "parses (return_type_fallback seer_class_generator) \<and>
   body_parses (\<lambda>code. Inl SyntaxError :: error + unit module) None"
proof -
  have "parses ''Any''" "parses ''Pet''" "parses ''int''"
    unfolding parses_def by code_simp+
  then show "params_parse seer_class_generator" "returns_parse seer_class_generator"
    "parses (return_type_fallback seer_class_generator) \<and>
     body_parses (\<lambda>code. Inl SyntaxError :: error + unit module) None"
    by (simp_all add: params_parse_def returns_parse_def seer_class_generator_def
        class_generator_fields get_return_type_name_def body_parses_def)
qed

text \<open>
  The constructor called with \<open>has_self = False\<close>: the class of \<open>generate_class\<close> holds the
  documentation string and two methods, the overload and the implementation, both with
  \<open>self\<close> first.
\<close>

theorem class_generator_forces_self_witness:
  "has_self seer_class_generator \<and>
   (\<exists>m methods.
      generate_class_module (\<lambda>code. Inl SyntaxError :: error + unit module) seer_class_generator
        True None True = Inr m \<and>
      m = Module [ClassDef ''SeerAPI'' [] []
            (Expr (Constant (ConstStr (''SeerAPI'' @ [CHR '' '', CHR 0xE7, CHR 0xB1, CHR 0xBB])))
             # methods) []] [] \<and>
      length methods = 2 \<and>
      list_all (\<lambda>f. is_function_def f \<and>
          (\<exists>rest. args (fargs f) = \<lparr> arg = ''self'', annotation = None \<rparr> # rest)) methods)"
proof -
  let ?p = "\<lambda>code. Inl SyntaxError :: error + unit module"
  from generate_class_module_ok[OF seer_hyps(1,2), of True ?p None True] seer_hyps(3)
  obtain m where m: "generate_class_module ?p seer_class_generator True None True = Inr m"
    by auto
  note t = class_generator_forces_self[OF seer_class_generator_def, of ?p]
  from t have hs: "has_self seer_class_generator"
    by (rule conjunct1)
  note c = t[THEN conjunct2, THEN conjunct2, THEN conjunct2, THEN conjunct1, rule_format, OF m]
  then obtain methods where
    "m = Module [ClassDef ''SeerAPI'' [] []
            (Expr (Constant (ConstStr (''SeerAPI'' @ [CHR '' '', CHR 0xE7, CHR 0xB1, CHR 0xBB])))
             # methods) []] []"
    "length methods = 2"
    "list_all (\<lambda>f. is_function_def f \<and>
          (\<exists>rest. args (fargs f) = \<lparr> arg = ''self'', annotation = None \<rparr> # rest)) methods"
    by auto
  with hs m show ?thesis by blast
qed

end
